theory Spec2Isabelle
  imports Complex_Main "HOL-Library.Sublist"
begin

section \<open>Data model of \<open>scripts/analyze.py\<close>\<close>

text \<open>
  Python \<open>int\<close> fields are \<open>int\<close>. Python \<open>float\<close> fields are modelled as \<open>real\<close>:
  every operation is the exact real operation, rounding of IEEE doubles is not modelled.
  Text is a \<open>string\<close>; the character classes below are Python's for the ASCII range.
\<close>

datatype py_error = ValueError | IndexError | ZeroDivisionError

record SynthesisResults =
  name :: string
  total_cells :: int
  wires :: int
  public_wires :: int
  memories :: int
  processes :: int
  and_gates :: int
  or_gates :: int
  xor_gates :: int
  not_gates :: int
  nand_gates :: int
  nor_gates :: int
  xnor_gates :: int
  mux_gates :: int
  add_cells :: int
  critical_path_delay_ns :: real
  estimated_area_ge :: real
  estimated_power_mw :: real
  max_frequency_mhz :: real
  simulation_time_ms :: real

text \<open>The dataclass constructor \<open>SynthesisResults(name=name)\<close>: every other field at its default.\<close>

definition new_results :: "string \<Rightarrow> SynthesisResults" where
  "new_results n =
     \<lparr> name = n, total_cells = 0, wires = 0, public_wires = 0, memories = 0, processes = 0,
       and_gates = 0, or_gates = 0, xor_gates = 0, not_gates = 0, nand_gates = 0,
       nor_gates = 0, xnor_gates = 0, mux_gates = 0, add_cells = 0,
       critical_path_delay_ns = 0, estimated_area_ge = 0, estimated_power_mw = 0,
       max_frequency_mhz = 0, simulation_time_ms = 0 \<rparr>"

section \<open>Text primitives used by the parser\<close>

definition NL :: char where
  "NL = CHR 0x0A"

text \<open>\<open>\d\<close>, \<open>\s\<close> (also what \<open>str.strip()\<close> removes), \<open>[A-Z]\<close> and \<open>\w\<close> on ASCII.\<close>

definition is_digit :: "char \<Rightarrow> bool" where
  "is_digit c = (c \<in> set ''0123456789'')"

definition is_space :: "char \<Rightarrow> bool" where
  "is_space c = (c \<in> set [CHR 0x09, CHR 0x0A, CHR 0x0B, CHR 0x0C, CHR 0x0D,
                            CHR 0x1C, CHR 0x1D, CHR 0x1E, CHR 0x1F, CHR 0x20])"

definition is_upper :: "char \<Rightarrow> bool" where
  "is_upper c = (c \<in> set ''ABCDEFGHIJKLMNOPQRSTUVWXYZ'')"

definition is_word :: "char \<Rightarrow> bool" where
  "is_word c = (is_digit c \<or> is_upper c \<or> c \<in> set ''abcdefghijklmnopqrstuvwxyz_'')"

text \<open>Value of a decimal digit string, most significant digit first.\<close>

definition digit_val :: "char \<Rightarrow> int" where
  "digit_val c = int (of_char c) - 48"

fun digits_value :: "int \<Rightarrow> string \<Rightarrow> int" where
  "digits_value acc [] = acc"
| "digits_value acc (c # cs) = digits_value (10 * acc + digit_val c) cs"

text \<open>
  \<open>int(s)\<close>. It raises \<open>ValueError\<close> on text that is not a number. The model accepts
  only non-empty digit strings, the only form the parser passes (Python accepts signs,
  blanks and underscores too, so the model raises at least where Python does). Integers
  are unbounded, but CPython refuses to convert a decimal string of more than
  \<open>sys.get_int_max_str_digits()\<close> digits, 4300 unless the interpreter is configured
  otherwise, and raises \<open>ValueError\<close> then.
\<close>

definition max_str_digits :: nat where
  "max_str_digits = 4300"

definition py_int :: "string \<Rightarrow> py_error + int" where
  "py_int s =
     (if s \<noteq> [] \<and> list_all is_digit s then
        (if max_str_digits < length s then Inl ValueError else Inr (digits_value 0 s))
      else Inl ValueError)"

text \<open>\<open>s.strip()\<close> and \<open>s.split('\n')\<close>.\<close>

definition strip :: "string \<Rightarrow> string" where
  "strip s = rev (dropWhile is_space (rev (dropWhile is_space s)))"

fun split_nl :: "string \<Rightarrow> string list" where
  "split_nl [] = [[]]"
| "split_nl (c # cs) =
     (if c = NL then [] # split_nl cs
      else (case split_nl cs of [] \<Rightarrow> [[c]] | l # ls \<Rightarrow> (c # l) # ls))"

subsection \<open>The section pattern\<close>

text \<open>
  \<open>re.finditer(r'=== design hierarchy ===.*?(?=\n===|\Z)', output, re.DOTALL)\<close>.
  After the literal header the lazy \<open>.*?\<close> takes as few characters as possible (any
  character, newlines too) up to the first position where the rest of the text starts
  with a newline and \<open>===\<close>, or where the text ends. The scan for the next match goes
  on where the last match ended.
\<close>

definition header :: string where
  "header = ''=== design hierarchy ===''"

definition section_end :: string where
  "section_end = [NL] @ ''===''"

fun lazy_body :: "string \<Rightarrow> string \<times> string" where
  "lazy_body [] = ([], [])"
| "lazy_body (c # cs) =
     (if prefix section_end (c # cs) then ([], c # cs)
      else (case lazy_body cs of (b, rest) \<Rightarrow> (c # b, rest)))"

lemma lazy_body_length: "length (snd (lazy_body s)) \<le> length s"
  by (induction s) (auto split: prod.splits)

function finditer_hierarchy :: "string \<Rightarrow> string list" where
  "finditer_hierarchy s =
     (if s = [] then []
      else if prefix header s then
        (case lazy_body (drop (length header) s) of
           (b, rest) \<Rightarrow> (header @ b) # finditer_hierarchy rest)
      else finditer_hierarchy (tl s))"
  by pat_completeness auto
termination
proof (relation "measure length", goal_cases)
  case 1
  show ?case by simp
next
  case (2 s b rest)
  have "length (snd (lazy_body (drop (length header) s))) \<le> length s - length header"
    using lazy_body_length [of "drop (length header) s"] by simp
  moreover have "rest = snd (lazy_body (drop (length header) s))"
    using 2 by (metis snd_conv)
  moreover have "length header \<le> length s" using 2 by (simp add: prefix_length_le)
  moreover have "length header = 24" by (simp add: header_def)
  ultimately show ?case by simp
next
  case (3 s)
  then show ?case by (cases s) simp_all
qed

declare finditer_hierarchy.simps [simp del]

lemma finditer_Nil [simp]: "finditer_hierarchy [] = []"
  by (subst finditer_hierarchy.simps) simp

subsection \<open>The count patterns\<close>

text \<open>
  \<open>(\d+)\s+KEYWORD\<close> at the start of a text. \<open>\d+\<close> and \<open>\s+\<close> are greedy; giving
  back a digit leaves a digit where \<open>\s\<close> is needed, and giving back a blank leaves a
  blank where the keyword (which starts with a letter) is needed, so only the longest
  runs can match. The result is group 1.
\<close>

definition match_count :: "string \<Rightarrow> string \<Rightarrow> string option" where
  "match_count kw s =
     (let ds = takeWhile is_digit s; r1 = dropWhile is_digit s;
          ws = takeWhile is_space r1; r2 = dropWhile is_space r1
      in if ds \<noteq> [] \<and> ws \<noteq> [] \<and> prefix kw r2 then Some ds else None)"

text \<open>\<open>re.search\<close>: the match at the leftmost position that has one.\<close>

fun search_count :: "string \<Rightarrow> string \<Rightarrow> string option" where
  "search_count kw [] = None"
| "search_count kw (c # cs) =
     (case match_count kw (c # cs) of Some ds \<Rightarrow> Some ds | None \<Rightarrow> search_count kw cs)"

text \<open>
  The alternation \<open>(\$_[A-Z]+_|\$\w+)\<close> at the start of a text: the first alternative
  wins when it matches; it is the last item of the pattern, so the second alternative
  takes its longest run of word characters.
\<close>

definition match_token :: "string \<Rightarrow> string option" where
  "match_token s =
     (case s of
        [] \<Rightarrow> None
      | c # r \<Rightarrow>
          if c \<noteq> CHR ''$'' then None
          else
            let up = takeWhile is_upper (tl r); w = takeWhile is_word r
            in if prefix ''_'' r \<and> up \<noteq> [] \<and> prefix ''_'' (dropWhile is_upper (tl r))
               then Some (''$_'' @ up @ ''_'')
               else if w \<noteq> [] then Some (''$'' @ w) else None)"

text \<open>\<open>re.match(r'(\d+)\s+(\$_[A-Z]+_|\$\w+)', line)\<close>: groups 1 and 2.\<close>

definition match_gate_line :: "string \<Rightarrow> (string \<times> string) option" where
  "match_gate_line line =
     (let ds = takeWhile is_digit line; r1 = dropWhile is_digit line;
          ws = takeWhile is_space r1; r2 = dropWhile is_space r1
      in if ds \<noteq> [] \<and> ws \<noteq> [] then
           (case match_token r2 of None \<Rightarrow> None | Some t \<Rightarrow> Some (ds, t))
         else None)"

section \<open>\<open>parse_yosys_output\<close>\<close>

text \<open>The \<open>if\<close>/\<open>elif\<close> chain on \<open>gate_type\<close>; an unrecognised token changes nothing.\<close>

definition set_gate :: "string \<Rightarrow> int \<Rightarrow> SynthesisResults \<Rightarrow> SynthesisResults" where
  "set_gate gate_type count r =
     (if gate_type = ''$_AND_'' then r\<lparr>and_gates := count\<rparr>
      else if gate_type = ''$_OR_'' then r\<lparr>or_gates := count\<rparr>
      else if gate_type = ''$_XOR_'' then r\<lparr>xor_gates := count\<rparr>
      else if gate_type = ''$_NOT_'' then r\<lparr>not_gates := count\<rparr>
      else if gate_type = ''$_NAND_'' then r\<lparr>nand_gates := count\<rparr>
      else if gate_type = ''$_NOR_'' then r\<lparr>nor_gates := count\<rparr>
      else if gate_type = ''$_XNOR_'' then r\<lparr>xnor_gates := count\<rparr>
      else if gate_type = ''$_MUX_'' then r\<lparr>mux_gates := count\<rparr>
      else if gate_type = ''$add'' then r\<lparr>add_cells := count\<rparr>
      else r)"

text \<open>The loop over \<open>hierarchy_text.split('\n')\<close>.\<close>

fun parse_lines :: "string list \<Rightarrow> SynthesisResults \<Rightarrow> py_error + SynthesisResults" where
  "parse_lines [] r = Inr r"
| "parse_lines (l # ls) r =
     (let line = strip l in
      if line = [] then parse_lines ls r
      else (case match_gate_line line of
              None \<Rightarrow> parse_lines ls r
            | Some (g1, g2) \<Rightarrow>
                (case py_int g1 of
                   Inl e \<Rightarrow> Inl e
                 | Inr count \<Rightarrow> parse_lines ls (set_gate g2 count r))))"

text \<open>One of the three \<open>re.search\<close> blocks: the field is assigned only on a match.\<close>

definition search_int :: "string \<Rightarrow> string \<Rightarrow> py_error + int option" where
  "search_int kw text =
     (case search_count kw text of
        None \<Rightarrow> Inr None
      | Some ds \<Rightarrow> (case py_int ds of Inl e \<Rightarrow> Inl e | Inr n \<Rightarrow> Inr (Some n)))"

definition parse_section :: "string \<Rightarrow> SynthesisResults \<Rightarrow> py_error + SynthesisResults" where
  "parse_section hierarchy_text r0 =
     (case search_int ''cells'' hierarchy_text of
        Inl e \<Rightarrow> Inl e
      | Inr cells \<Rightarrow>
     (case search_int ''wires'' hierarchy_text of
        Inl e \<Rightarrow> Inl e
      | Inr wire \<Rightarrow>
     (case search_int ''public wires'' hierarchy_text of
        Inl e \<Rightarrow> Inl e
      | Inr public \<Rightarrow>
          let r1 = (case cells of None \<Rightarrow> r0 | Some n \<Rightarrow> r0\<lparr>total_cells := n\<rparr>);
              r2 = (case wire of None \<Rightarrow> r1 | Some n \<Rightarrow> r1\<lparr>wires := n\<rparr>);
              r3 = (case public of None \<Rightarrow> r2 | Some n \<Rightarrow> r2\<lparr>public_wires := n\<rparr>)
          in parse_lines (split_nl hierarchy_text) r3)))"

text \<open>\<open>xs[-1]\<close>, which raises \<open>IndexError\<close> on an empty list.\<close>

definition py_last :: "'a list \<Rightarrow> py_error + 'a" where
  "py_last xs = (if xs = [] then Inl IndexError else Inr (last xs))"

definition parse_yosys_output :: "string \<Rightarrow> string \<Rightarrow> py_error + SynthesisResults" where
  "parse_yosys_output n output =
     (let hierarchy_sections = finditer_hierarchy output in
      if hierarchy_sections \<noteq> [] then
        (case py_last hierarchy_sections of
           Inl e \<Rightarrow> Inl e
         | Inr hierarchy_text \<Rightarrow> parse_section hierarchy_text (new_results n))
      else Inr (new_results n))"

section \<open>The estimators\<close>

definition calculate_area :: "SynthesisResults \<Rightarrow> real" where
  "calculate_area r =
     (let area = 0;
          area = area + of_int (and_gates r) * 1.33;
          area = area + of_int (or_gates r) * 1.33;
          area = area + of_int (xor_gates r) * 2.67;
          area = area + of_int (not_gates r) * 0.67;
          area = area + of_int (nand_gates r) * 1.0;
          area = area + of_int (nor_gates r) * 1.0;
          area = area + of_int (xnor_gates r) * 2.67;
          area = area + of_int (mux_gates r) * 2.0;
          area = area + of_int (add_cells r) * 8.0;
          known_gates = and_gates r + or_gates r + xor_gates r +
                        not_gates r + nand_gates r + nor_gates r +
                        xnor_gates r + mux_gates r + add_cells r;
          other_cells = max 0 (total_cells r - known_gates);
          area = area + of_int other_cells * 2.0
      in area)"

text \<open>
  \<open>math.ceil(math.log(32) / math.log(1.5))\<close>, which both tree branches compute. The
  quotient is about 8.55, far from an integer, so rounding does not change the ceiling.
\<close>

definition tree_levels :: int where
  "tree_levels = \<lceil>ln 32 / ln 1.5 :: real\<rceil>"

lemma tree_levels_code [code]: "tree_levels = 9"
proof -
  have "ln 32 / ln 1.5 = log 1.5 (32::real)" by (simp add: log_def)
  moreover have "(3 / 2 :: real) ^ 8 < 32" by (simp add: power_divide)
  then have "8 < log 1.5 (32::real)"
    by (subst less_log_iff) (simp_all add: powr_numeral)
  moreover have "(32::real) \<le> (3 / 2) ^ 9" by (simp add: power_divide)
  then have "log 1.5 (32::real) \<le> 9"
    by (subst log_le_iff) (simp_all add: powr_numeral)
  ultimately show ?thesis by (simp add: tree_levels_def ceiling_eq_iff)
qed

definition estimate_critical_path :: "SynthesisResults \<Rightarrow> real" where
  "estimate_critical_path r =
     (if name r = ''Classical'' then
        (let levels = 32; delay_per_stage = 0.3 in levels * delay_per_stage)
      else if name r = ''Wallace'' then
        (let levels = tree_levels; delay_per_level = 0.25; final_adder_delay = 2.0
         in of_int levels * delay_per_level + final_adder_delay)
      else if name r = ''Dadda'' then
        (let levels = tree_levels; delay_per_level = 0.25; final_adder_delay = 2.0
         in of_int levels * delay_per_level + final_adder_delay)
      else 5.0)"

definition estimate_power :: "SynthesisResults \<Rightarrow> real" where
  "estimate_power r =
     (let voltage = 1.0 :: real;
          frequency = 100000000 :: real;
          activity = 0.2 :: real;
          cap_per_gate = 1 / 10 ^ 15 :: real;
          total_cap = 0;
          total_cap = total_cap + of_int (and_gates r) * 2.0 * cap_per_gate;
          total_cap = total_cap + of_int (or_gates r) * 2.0 * cap_per_gate;
          total_cap = total_cap + of_int (xor_gates r) * 4.0 * cap_per_gate;
          total_cap = total_cap + of_int (not_gates r) * 1.0 * cap_per_gate;
          total_cap = total_cap + of_int (nand_gates r) * 2.0 * cap_per_gate;
          total_cap = total_cap + of_int (nor_gates r) * 2.0 * cap_per_gate;
          total_cap = total_cap + of_int (xnor_gates r) * 4.0 * cap_per_gate;
          total_cap = total_cap + of_int (mux_gates r) * 3.0 * cap_per_gate;
          total_cap = total_cap + of_int (add_cells r) * 10.0 * cap_per_gate;
          known_gates = and_gates r + or_gates r + xor_gates r +
                        not_gates r + nand_gates r + nor_gates r +
                        xnor_gates r + mux_gates r + add_cells r;
          other_cells = max 0 (total_cells r - known_gates);
          total_cap = total_cap + of_int other_cells * 2.5 * cap_per_gate;
          power_w = activity * total_cap * (voltage ^ 2) * frequency;
          power_mw = power_w * 1000
      in power_mw)"

section \<open>\<open>synthesize_design\<close>\<close>

text \<open>The guarded assignment of \<open>max_frequency_mhz\<close> (the \<open>if\<close> after the three estimates).\<close>

definition set_max_frequency :: "SynthesisResults \<Rightarrow> SynthesisResults" where
  "set_max_frequency result =
     (if critical_path_delay_ns result > 0
      then result\<lparr>max_frequency_mhz := 1000 / critical_path_delay_ns result\<rparr>
      else result)"

text \<open>The four assignments that follow the call of the parser.\<close>

definition estimate_metrics :: "SynthesisResults \<Rightarrow> SynthesisResults" where
  "estimate_metrics result =
     (let result = result\<lparr>estimated_area_ge := calculate_area result\<rparr>;
          result = result\<lparr>critical_path_delay_ns := estimate_critical_path result\<rparr>;
          result = result\<lparr>estimated_power_mw := estimate_power result\<rparr>
      in set_max_frequency result)"

text \<open>
  The run of the external tool is an input of the model: it completes with its standard
  output, times out, or fails with another exception. Both \<open>except\<close> branches return
  \<open>None\<close>; an exception of the parser would be caught by the second one.
\<close>

datatype proc_result = Completed string | TimeoutExpired | OtherException

definition synthesize_design :: "string \<Rightarrow> proc_result \<Rightarrow> SynthesisResults option" where
  "synthesize_design n proc =
     (case proc of
        TimeoutExpired \<Rightarrow> None
      | OtherException \<Rightarrow> None
      | Completed output \<Rightarrow>
          (case parse_yosys_output n output of
             Inl e \<Rightarrow> None
           | Inr result \<Rightarrow> Some (estimate_metrics result)))"

section \<open>The result store and \<open>analyze_all\<close>\<close>

text \<open>
  \<open>self.results\<close> is a dictionary: a list of pairs with distinct keys in insertion
  order, which is the order \<open>items()\<close> and \<open>values()\<close> iterate in. Assigning to a key
  that is present keeps its position.
\<close>

type_synonym store = "(string \<times> SynthesisResults) list"

fun store_insert :: "string \<Rightarrow> SynthesisResults \<Rightarrow> store \<Rightarrow> store" where
  "store_insert k v [] = [(k, v)]"
| "store_insert k v ((k', v') # st) =
     (if k = k' then (k, v) # st else (k', v') # store_insert k v st)"

definition placeholder_classical :: SynthesisResults where
  "placeholder_classical =
     (new_results ''Classical'')\<lparr>total_cells := 2048, estimated_area_ge := 5000,
        critical_path_delay_ns := 9.6, estimated_power_mw := 15.0, max_frequency_mhz := 104.2\<rparr>"

definition placeholder_dadda :: SynthesisResults where
  "placeholder_dadda =
     (new_results ''Dadda'')\<lparr>total_cells := 1800, estimated_area_ge := 4200,
        critical_path_delay_ns := 6.75, estimated_power_mw := 12.5, max_frequency_mhz := 148.1\<rparr>"

definition placeholder_wallace :: SynthesisResults where
  "placeholder_wallace =
     (new_results ''Wallace'')\<lparr>total_cells := 2200, estimated_area_ge := 5100,
        critical_path_delay_ns := 6.75, estimated_power_mw := 14.8, max_frequency_mhz := 148.1\<rparr>"

text \<open>
  The store \<open>analyze_all\<close> builds before it calls \<open>generate_report\<close>. \<open>has_yosys\<close> is the
  result of \<open>check_yosys\<close>; the three runs of the tool are inputs.
\<close>

definition analyze_all_results ::
    "bool \<Rightarrow> proc_result \<Rightarrow> proc_result \<Rightarrow> proc_result \<Rightarrow> store" where
  "analyze_all_results has_yosys pc pd pw =
     (if has_yosys then
        (let results = [];
             results = (case synthesize_design ''Classical'' pc of
                          None \<Rightarrow> results | Some classical \<Rightarrow> store_insert ''Classical'' classical results);
             results = (case synthesize_design ''Dadda'' pd of
                          None \<Rightarrow> results | Some dadda \<Rightarrow> store_insert ''Dadda'' dadda results);
             results = (case synthesize_design ''Wallace'' pw of
                          None \<Rightarrow> results | Some wallace \<Rightarrow> store_insert ''Wallace'' wallace results)
         in results)
      else
        (let results = [];
             results = store_insert ''Classical'' placeholder_classical results;
             results = store_insert ''Dadda'' placeholder_dadda results;
             results = store_insert ''Wallace'' placeholder_wallace results
         in results))"

section \<open>\<open>generate_report\<close>\<close>

text \<open>
  The report is what the function prints, before formatting: the number behind each
  \<open>:.2f\<close> or \<open>:.1f\<close> field that is computed by a division or a selection here
  (stored fields that are printed as they are, and the energy column, a product, are
  left out). Division of floats raises
  \<open>ZeroDivisionError\<close> on a zero divisor; \<open>min\<close> and \<open>max\<close> raise \<open>ValueError\<close> on an
  empty sequence and return the first of several equal extremes.
\<close>

definition py_bind :: "py_error + 'a \<Rightarrow> ('a \<Rightarrow> py_error + 'b) \<Rightarrow> py_error + 'b" where
  "py_bind m f = (case m of Inl e \<Rightarrow> Inl e | Inr x \<Rightarrow> f x)"

definition py_div :: "real \<Rightarrow> real \<Rightarrow> py_error + real" where
  "py_div a b = (if b = 0 then Inl ZeroDivisionError else Inr (a / b))"

fun min_from :: "('a \<Rightarrow> real) \<Rightarrow> 'a \<Rightarrow> 'a list \<Rightarrow> 'a" where
  "min_from key best [] = best"
| "min_from key best (x # xs) = min_from key (if key x < key best then x else best) xs"

fun max_from :: "('a \<Rightarrow> real) \<Rightarrow> 'a \<Rightarrow> 'a list \<Rightarrow> 'a" where
  "max_from key best [] = best"
| "max_from key best (x # xs) = max_from key (if key x > key best then x else best) xs"

definition py_min_by :: "('a \<Rightarrow> real) \<Rightarrow> 'a list \<Rightarrow> py_error + 'a" where
  "py_min_by key xs = (case xs of [] \<Rightarrow> Inl ValueError | x # ys \<Rightarrow> Inr (min_from key x ys))"

definition py_min :: "real list \<Rightarrow> py_error + real" where
  "py_min xs = py_min_by id xs"

definition py_max :: "real list \<Rightarrow> py_error + real" where
  "py_max xs = (case xs of [] \<Rightarrow> Inl ValueError | x # ys \<Rightarrow> Inr (max_from id x ys))"

definition canonical :: "string list" where
  "canonical = [''Classical'', ''Dadda'', ''Wallace'']"

text \<open>
  One table: \<open>for name in ["Classical", "Dadda", "Wallace"]: if name in self.results: ...\<close>,
  with the ratio of the row computed by \<open>f\<close>.
\<close>

fun table_rows ::
    "(SynthesisResults \<Rightarrow> py_error + real) \<Rightarrow> store \<Rightarrow> string list \<Rightarrow> py_error + (string \<times> real) list" where
  "table_rows f st [] = Inr []"
| "table_rows f st (n # ns) =
     (case map_of st n of
        None \<Rightarrow> table_rows f st ns
      | Some res \<Rightarrow>
          py_bind (f res) (\<lambda>v. py_bind (table_rows f st ns) (\<lambda>rows. Inr ((n, v) # rows))))"

record comparison_report =
  area_relative :: "(string \<times> real) list"
  timing_speedup :: "(string \<times> real) list"
  power_relative :: "(string \<times> real) list"
  wallace_faster_than_classical :: "real option"
  dadda_faster_than_classical :: "real option"
  wallace_vs_dadda :: "(real \<times> real) option"
  best_speed :: string
  best_area :: string
  best_power :: string

datatype report = NoResults | Comparison comparison_report

text \<open>The two \<open>x is N.NNx FASTER than Classical\<close> lines of section 5.\<close>

definition faster_than_classical :: "store \<Rightarrow> string \<Rightarrow> py_error + real option" where
  "faster_than_classical st n =
     (case (map_of st ''Classical'', map_of st n) of
        (Some c, Some w) \<Rightarrow>
          py_bind (py_div (critical_path_delay_ns c) (critical_path_delay_ns w)) (\<lambda>q. Inr (Some q))
      | _ \<Rightarrow> Inr None)"

text \<open>The Wallace and Dadda block of section 5: \<open>(timing_diff, area_saving)\<close>.\<close>

definition wallace_dadda :: "store \<Rightarrow> py_error + (real \<times> real) option" where
  "wallace_dadda st =
     (case (map_of st ''Wallace'', map_of st ''Dadda'') of
        (Some w, Some d) \<Rightarrow>
          (let w_area = estimated_area_ge w; d_area = estimated_area_ge d;
               w_delay = critical_path_delay_ns w; d_delay = critical_path_delay_ns d
           in py_bind (py_div \<bar>w_delay - d_delay\<bar> (min w_delay d_delay)) (\<lambda>q1.
              py_bind (py_div (w_area - d_area) w_area) (\<lambda>q2.
              Inr (Some (q1 * 100, q2 * 100)))))
      | _ \<Rightarrow> Inr None)"

definition generate_report :: "store \<Rightarrow> py_error + report" where
  "generate_report results =
     (if results = [] then Inr NoResults
      else
        let areas = map (\<lambda>(n, res). (n, estimated_area_ge res)) results in
        py_bind (if areas \<noteq> [] then py_min (map snd areas) else Inr 1) (\<lambda>min_area.
        py_bind (table_rows (\<lambda>res. py_div (estimated_area_ge res) min_area) results canonical) (\<lambda>area_rows.
        let delays = map (\<lambda>(n, res). (n, critical_path_delay_ns res)) results in
        py_bind (if delays \<noteq> [] then py_max (map snd delays) else Inr 1) (\<lambda>max_delay.
        py_bind (table_rows (\<lambda>res. py_div max_delay (critical_path_delay_ns res)) results canonical) (\<lambda>timing_rows.
        let powers = map (\<lambda>(n, res). (n, estimated_power_mw res)) results in
        py_bind (if powers \<noteq> [] then py_min (map snd powers) else Inr 1) (\<lambda>min_power.
        py_bind (table_rows (\<lambda>res. py_div (estimated_power_mw res) min_power) results canonical) (\<lambda>power_rows.
        py_bind (faster_than_classical results ''Wallace'') (\<lambda>cw.
        py_bind (faster_than_classical results ''Dadda'') (\<lambda>cd.
        py_bind (wallace_dadda results) (\<lambda>wd.
        py_bind (py_min_by (\<lambda>x. critical_path_delay_ns (snd x)) results) (\<lambda>speed.
        py_bind (py_min_by (\<lambda>x. estimated_area_ge (snd x)) results) (\<lambda>area.
        py_bind (py_min_by (\<lambda>x. estimated_power_mw (snd x)) results) (\<lambda>power.
        Inr (Comparison
          \<lparr> area_relative = area_rows, timing_speedup = timing_rows,
            power_relative = power_rows,
            wallace_faster_than_classical = cw, dadda_faster_than_classical = cd,
            wallace_vs_dadda = wd,
            best_speed = fst speed, best_area = fst area, best_power = fst power \<rparr>))))))))))))))"

section \<open>Quantities named in the statements\<close>

text \<open>
  The sum of the nine classified counts (the local \<open>known_gates\<close> of both estimators),
  the part of the area and of the capacitance that the classified cells contribute, and
  the clamped remainder.
\<close>

definition known_gates :: "SynthesisResults \<Rightarrow> int" where
  "known_gates r = and_gates r + or_gates r + xor_gates r + not_gates r + nand_gates r +
                   nor_gates r + xnor_gates r + mux_gates r + add_cells r"

definition classified_area :: "SynthesisResults \<Rightarrow> real" where
  "classified_area r =
     of_int (and_gates r) * 1.33 + of_int (or_gates r) * 1.33 + of_int (xor_gates r) * 2.67 +
     of_int (not_gates r) * 0.67 + of_int (nand_gates r) * 1.0 + of_int (nor_gates r) * 1.0 +
     of_int (xnor_gates r) * 2.67 + of_int (mux_gates r) * 2.0 + of_int (add_cells r) * 8.0"

definition classified_cap :: "SynthesisResults \<Rightarrow> real" where
  "classified_cap r =
     (of_int (and_gates r) * 2.0 + of_int (or_gates r) * 2.0 + of_int (xor_gates r) * 4.0 +
      of_int (not_gates r) * 1.0 + of_int (nand_gates r) * 2.0 + of_int (nor_gates r) * 2.0 +
      of_int (xnor_gates r) * 4.0 + of_int (mux_gates r) * 3.0 + of_int (add_cells r) * 10.0) / 10 ^ 15"

definition other_cells :: "SynthesisResults \<Rightarrow> int" where
  "other_cells r = max 0 (total_cells r - known_gates r)"

text \<open>A record whose classified sum exceeds its total.\<close>

definition overfull :: SynthesisResults where
  "overfull = (new_results ''Wallace'')\<lparr>total_cells := 1, and_gates := 3\<rparr>"

text \<open>
  The nine tokens the parser recognises and the field each one is stored in; what one
  line of the section does to the record; the three counts found by the search patterns.
\<close>

definition gate_tokens :: "string list" where
  "gate_tokens = [''$_AND_'', ''$_OR_'', ''$_XOR_'', ''$_NOT_'', ''$_NAND_'', ''$_NOR_'',
                  ''$_XNOR_'', ''$_MUX_'', ''$add'']"

definition gate_count :: "string \<Rightarrow> SynthesisResults \<Rightarrow> int" where
  "gate_count t r =
     (if t = ''$_AND_'' then and_gates r
      else if t = ''$_OR_'' then or_gates r
      else if t = ''$_XOR_'' then xor_gates r
      else if t = ''$_NOT_'' then not_gates r
      else if t = ''$_NAND_'' then nand_gates r
      else if t = ''$_NOR_'' then nor_gates r
      else if t = ''$_XNOR_'' then xnor_gates r
      else if t = ''$_MUX_'' then mux_gates r
      else if t = ''$add'' then add_cells r
      else 0)"

definition line_step :: "string \<Rightarrow> SynthesisResults \<Rightarrow> SynthesisResults" where
  "line_step l r =
     (case match_gate_line (strip l) of
        None \<Rightarrow> r
      | Some (g1, g2) \<Rightarrow> set_gate g2 (digits_value 0 g1) r)"

definition section_counts :: "string \<Rightarrow> SynthesisResults \<Rightarrow> SynthesisResults" where
  "section_counts text r0 =
     (let r1 = (case search_count ''cells'' text of
                  None \<Rightarrow> r0 | Some ds \<Rightarrow> r0\<lparr>total_cells := digits_value 0 ds\<rparr>);
          r2 = (case search_count ''wires'' text of
                  None \<Rightarrow> r1 | Some ds \<Rightarrow> r1\<lparr>wires := digits_value 0 ds\<rparr>);
          r3 = (case search_count ''public wires'' text of
                  None \<Rightarrow> r2 | Some ds \<Rightarrow> r2\<lparr>public_wires := digits_value 0 ds\<rparr>)
      in r3)"

definition counts_nonneg :: "SynthesisResults \<Rightarrow> bool" where
  "counts_nonneg r \<longleftrightarrow>
     0 \<le> total_cells r \<and> 0 \<le> wires r \<and> 0 \<le> public_wires r \<and>
     0 \<le> and_gates r \<and> 0 \<le> or_gates r \<and> 0 \<le> xor_gates r \<and> 0 \<le> not_gates r \<and>
     0 \<le> nand_gates r \<and> 0 \<le> nor_gates r \<and> 0 \<le> xnor_gates r \<and> 0 \<le> mux_gates r \<and>
     0 \<le> add_cells r"

text \<open>
  The digit strings that the parser passes to \<open>int\<close> on a section: the matches of the
  three search patterns, then group 1 of every line that matches the gate pattern,
  whatever its token. A string is within the limit when \<open>int\<close> converts it.
\<close>

definition within_limit :: "string \<Rightarrow> bool" where
  "within_limit ds \<longleftrightarrow> length ds \<le> max_str_digits"

definition search_ints :: "string \<Rightarrow> string list" where
  "search_ints sec =
     (case search_count ''cells'' sec of None \<Rightarrow> [] | Some ds \<Rightarrow> [ds]) @
     (case search_count ''wires'' sec of None \<Rightarrow> [] | Some ds \<Rightarrow> [ds]) @
     (case search_count ''public wires'' sec of None \<Rightarrow> [] | Some ds \<Rightarrow> [ds])"

fun line_ints :: "string list \<Rightarrow> string list" where
  "line_ints [] = []"
| "line_ints (l # ls) =
     (case match_gate_line (strip l) of
        None \<Rightarrow> line_ints ls
      | Some (g1, g2) \<Rightarrow> g1 # line_ints ls)"

definition int_arguments :: "string \<Rightarrow> string list" where
  "int_arguments sec = search_ints sec @ line_ints (split_nl sec)"

text \<open>Report texts used as concrete inputs.\<close>

definition long_count_report :: string where
  "long_count_report = header @ [NL] @ replicate 4301 (CHR ''1'') @ '' cells''"

definition two_sections :: string where
  "two_sections = ''=== design hierarchy ===\<newline> 12 cells\<newline> 4 $_AND_\<newline>=== design hierarchy ===\<newline> 99 cells\<newline> 6 $_XOR_''"

definition earlier_section :: string where
  "earlier_section = ''=== design hierarchy ===\<newline> 12 cells\<newline> 4 $_AND_''"

definition later_section :: string where
  "later_section = ''=== design hierarchy ===\<newline> 99 cells\<newline> 6 $_XOR_''"

definition truncated_report :: string where
  "truncated_report = ''=== design hierarchy ===\<newline> 12 ce''"

definition repeated_gate :: string where
  "repeated_gate = ''=== design hierarchy ===\<newline>4 $_AND_\<newline>5 $_AND_\<newline>7 $_OR_''"

text \<open>
  The stores and reports used as concrete inputs: the fallback store with its report, the
  store of a run in which only the Classical synthesis completes, with an output that has
  no hierarchy section, and a store filled in the order Wallace, Dadda.
\<close>

definition fallback_store :: store where
  "fallback_store = analyze_all_results False TimeoutExpired TimeoutExpired TimeoutExpired"

definition silent_classical_store :: store where
  "silent_classical_store = analyze_all_results True (Completed '''') TimeoutExpired TimeoutExpired"

definition fallback_report :: comparison_report where
  "fallback_report =
     \<lparr> area_relative = [(''Classical'', 25 / 21), (''Dadda'', 1), (''Wallace'', 17 / 14)],
       timing_speedup = [(''Classical'', 1), (''Dadda'', 64 / 45), (''Wallace'', 64 / 45)],
       power_relative = [(''Classical'', 6 / 5), (''Dadda'', 1), (''Wallace'', 148 / 125)],
       wallace_faster_than_classical = Some (64 / 45),
       dadda_faster_than_classical = Some (64 / 45),
       wallace_vs_dadda = Some (0, 300 / 17),
       best_speed = ''Dadda'', best_area = ''Dadda'', best_power = ''Dadda'' \<rparr>"

definition reversed_store :: store where
  "reversed_store =
     store_insert ''Dadda'' placeholder_dadda (store_insert ''Wallace'' placeholder_wallace [])"

definition reversed_report :: comparison_report where
  "reversed_report =
     \<lparr> area_relative = [(''Dadda'', 1), (''Wallace'', 17 / 14)],
       timing_speedup = [(''Dadda'', 1), (''Wallace'', 1)],
       power_relative = [(''Dadda'', 1), (''Wallace'', 148 / 125)],
       wallace_faster_than_classical = None,
       dadda_faster_than_classical = None,
       wallace_vs_dadda = Some (0, 300 / 17),
       best_speed = ''Wallace'', best_area = ''Dadda'', best_power = ''Dadda'' \<rparr>"

text \<open>Position of a name in the order Classical, Dadda, Wallace (3 for any other name).\<close>

definition canonical_rank :: "string \<Rightarrow> nat" where
  "canonical_rank n = length (takeWhile (\<lambda>m. m \<noteq> n) canonical)"

section \<open>The estimators: remainder, timing, the zero record\<close>

lemma calculate_area_eq:
  "calculate_area r = classified_area r + of_int (other_cells r) * 2.0"
  by (simp add: calculate_area_def classified_area_def other_cells_def known_gates_def Let_def)

lemma estimate_power_eq:
  "estimate_power r =
     0.2 * (classified_cap r + of_int (other_cells r) * 2.5 / 10 ^ 15) * 100000000 * 1000"
  by (simp add: estimate_power_def classified_cap_def other_cells_def known_gates_def Let_def
        add_divide_distrib)

text \<open>
  Claim C6. In both \<open>calculate_area\<close> and \<open>estimate_power\<close> the remainder term is
  \<open>total_cells\<close> minus the sum of the nine classified counts, clamped at zero: it is
  never negative, it is zero (and contributes nothing to area and power) when the
  classified sum reaches or exceeds \<open>total_cells\<close>, and it is the plain difference
  otherwise.
\<close>

theorem other_cells_remainder:
  "calculate_area r = classified_area r + of_int (max 0 (total_cells r - known_gates r)) * 2.0
   \<and> estimate_power r =
       0.2 * (classified_cap r + of_int (max 0 (total_cells r - known_gates r)) * 2.5 / 10 ^ 15)
         * 100000000 * 1000
   \<and> 0 \<le> max 0 (total_cells r - known_gates r)
   \<and> (total_cells r \<le> known_gates r \<longrightarrow>
        max 0 (total_cells r - known_gates r) = 0
        \<and> calculate_area r = classified_area r
        \<and> estimate_power r = 0.2 * classified_cap r * 100000000 * 1000)
   \<and> (known_gates r \<le> total_cells r \<longrightarrow>
        max 0 (total_cells r - known_gates r) = total_cells r - known_gates r)"
proof (cases "total_cells r \<le> known_gates r")
  case True
  then have "other_cells r = 0" by (simp add: other_cells_def)
  then show ?thesis
    using calculate_area_eq [of r] estimate_power_eq [of r] True by (simp add: other_cells_def)
next
  case False
  then show ?thesis
    using calculate_area_eq [of r] estimate_power_eq [of r] by (simp add: other_cells_def)
qed

theorem other_cells_remainder_witness:
  "total_cells overfull \<le> known_gates overfull
   \<and> calculate_area overfull = 3.99
   \<and> estimate_power overfull = 0.00012
   \<and> calculate_area (overfull\<lparr>total_cells := 5\<rparr>) = 7.99"
  using other_cells_remainder [of overfull] other_cells_remainder [of "overfull\<lparr>total_cells := 5\<rparr>"]
  by (simp add: overfull_def new_results_def known_gates_def classified_area_def classified_cap_def)

text \<open>
  Claim C7. \<open>estimate_critical_path\<close> depends on the name of the record only: records
  with the same name get the same delay whatever their counts; Wallace and Dadda both
  get \<open>ceil(log(32) / log(1.5))\<close> levels times 0.25 plus 2.0, hence the same delay; every
  name other than the three known ones gets 5.0.
\<close>

theorem timing_by_name:
  "(name r1 = name r2 \<longrightarrow> estimate_critical_path r1 = estimate_critical_path r2)
   \<and> (name r = ''Wallace'' \<or> name r = ''Dadda'' \<longrightarrow>
        estimate_critical_path r = of_int \<lceil>ln 32 / ln 1.5 :: real\<rceil> * 0.25 + 2.0)
   \<and> (name r1 = ''Wallace'' \<and> name r2 = ''Dadda'' \<longrightarrow>
        estimate_critical_path r1 = estimate_critical_path r2)
   \<and> (name r \<noteq> ''Classical'' \<and> name r \<noteq> ''Wallace'' \<and> name r \<noteq> ''Dadda'' \<longrightarrow>
        estimate_critical_path r = 5.0)"
  by (simp add: estimate_critical_path_def Let_def tree_levels_def)

theorem timing_by_name_witness:
  "estimate_critical_path ((new_results ''Wallace'')\<lparr>and_gates := 7\<rparr>)
     = estimate_critical_path (new_results ''Wallace'')
   \<and> estimate_critical_path (new_results ''Wallace'') = of_int \<lceil>ln 32 / ln 1.5 :: real\<rceil> * 0.25 + 2.0
   \<and> estimate_critical_path (new_results ''Wallace'') = estimate_critical_path (new_results ''Dadda'')
   \<and> estimate_critical_path (new_results ''Booth'') = 5.0"
  using timing_by_name [of "(new_results ''Wallace'')\<lparr>and_gates := 7\<rparr>" "new_results ''Wallace''" "new_results ''Wallace''"]
    timing_by_name [of "new_results ''Wallace''" "new_results ''Dadda''" "new_results ''Booth''"]
  by (simp add: new_results_def)

text \<open>
  Claim C9. For a record named Classical whose total and nine classified counts are
  zero, the estimates are: area 0.0, delay 9.6 (32 stages of 0.3 ns), maximum frequency
  1000 / 9.6, which is 104.17 to two decimals, and power 0.0.
\<close>

theorem classical_zero_scenario:
  assumes "name r = ''Classical''"
    and "total_cells r = 0" and "and_gates r = 0" and "or_gates r = 0" and "xor_gates r = 0"
    and "not_gates r = 0" and "nand_gates r = 0" and "nor_gates r = 0" and "xnor_gates r = 0"
    and "mux_gates r = 0" and "add_cells r = 0"
  shows "estimated_area_ge (estimate_metrics r) = 0.0
         \<and> critical_path_delay_ns (estimate_metrics r) = 9.6
         \<and> critical_path_delay_ns (estimate_metrics r) = 32 * 0.3
         \<and> max_frequency_mhz (estimate_metrics r) = 1000 / 9.6
         \<and> \<bar>max_frequency_mhz (estimate_metrics r) - 104.17\<bar> < 0.005
         \<and> estimated_power_mw (estimate_metrics r) = 0.0"
  using assms
  by (simp add: estimate_metrics_def set_max_frequency_def calculate_area_def
        estimate_critical_path_def estimate_power_def Let_def)

theorem classical_zero_scenario_witness:
  "synthesize_design ''Classical'' (Completed '''') = Some (estimate_metrics (new_results ''Classical''))
   \<and> estimated_area_ge (estimate_metrics (new_results ''Classical'')) = 0.0
   \<and> critical_path_delay_ns (estimate_metrics (new_results ''Classical'')) = 9.6
   \<and> max_frequency_mhz (estimate_metrics (new_results ''Classical'')) = 1000 / 9.6
   \<and> estimated_power_mw (estimate_metrics (new_results ''Classical'')) = 0.0"
  using classical_zero_scenario [of "new_results ''Classical''"]
  by (simp add: new_results_def synthesize_design_def parse_yosys_output_def)

section \<open>Frequency inversion\<close>

lemma estimate_metrics_delay:
  "critical_path_delay_ns (estimate_metrics r) = estimate_critical_path r"
  by (simp add: estimate_metrics_def set_max_frequency_def Let_def estimate_critical_path_def)

lemma estimate_critical_path_pos: "0 < estimate_critical_path r"
  by (simp add: estimate_critical_path_def Let_def tree_levels_code)

lemma estimate_metrics_frequency:
  "max_frequency_mhz (estimate_metrics r) = 1000 / estimate_critical_path r"
  using estimate_critical_path_pos [of r]
  by (simp add: estimate_metrics_def set_max_frequency_def Let_def estimate_critical_path_def
        tree_levels_code)

text \<open>
  Claim C2, as amended. A record that \<open>synthesize_design\<close> returns has a positive delay
  \<open>d\<close> and \<open>max_frequency_mhz = 1000 / d\<close>; the guarded assignment sets \<open>1000 / d\<close> when
  the delay is positive and leaves the record, and so the zero default, unchanged when it
  is not. The three placeholder records of the fallback branch hold \<open>1000 / d\<close> rounded
  to one decimal: they are within 0.05 of it.
\<close>

theorem frequency_inversion:
  "(synthesize_design n proc = Some r \<longrightarrow>
      0 < critical_path_delay_ns r
      \<and> max_frequency_mhz r = 1000 / critical_path_delay_ns r)
   \<and> (0 < critical_path_delay_ns r \<longrightarrow>
      max_frequency_mhz (set_max_frequency r) = 1000 / critical_path_delay_ns r)
   \<and> (\<not> 0 < critical_path_delay_ns r \<longrightarrow> set_max_frequency r = r)
   \<and> (\<not> 0 < critical_path_delay_ns r \<and> max_frequency_mhz r = 0 \<longrightarrow>
      max_frequency_mhz (set_max_frequency r) = 0)
   \<and> \<bar>max_frequency_mhz placeholder_classical
        - 1000 / critical_path_delay_ns placeholder_classical\<bar> \<le> 0.05
   \<and> \<bar>max_frequency_mhz placeholder_dadda
        - 1000 / critical_path_delay_ns placeholder_dadda\<bar> \<le> 0.05
   \<and> \<bar>max_frequency_mhz placeholder_wallace
        - 1000 / critical_path_delay_ns placeholder_wallace\<bar> \<le> 0.05"
proof -
  have "synthesize_design n proc = Some r \<longrightarrow>
      0 < critical_path_delay_ns r \<and> max_frequency_mhz r = 1000 / critical_path_delay_ns r"
    using estimate_critical_path_pos
    by (auto simp: synthesize_design_def estimate_metrics_delay estimate_metrics_frequency
          split: proc_result.splits sum.splits)
  moreover have "\<bar>max_frequency_mhz placeholder_classical
        - 1000 / critical_path_delay_ns placeholder_classical\<bar> \<le> 0.05"
    by (simp add: placeholder_classical_def new_results_def)
  moreover have "\<bar>max_frequency_mhz placeholder_dadda
        - 1000 / critical_path_delay_ns placeholder_dadda\<bar> \<le> 0.05"
    by (simp add: placeholder_dadda_def new_results_def)
  moreover have "\<bar>max_frequency_mhz placeholder_wallace
        - 1000 / critical_path_delay_ns placeholder_wallace\<bar> \<le> 0.05"
    by (simp add: placeholder_wallace_def new_results_def)
  ultimately show ?thesis by (simp add: set_max_frequency_def)
qed

theorem frequency_inversion_witness:
  "synthesize_design ''Dadda'' (Completed '''') = Some (estimate_metrics (new_results ''Dadda''))
   \<and> critical_path_delay_ns (estimate_metrics (new_results ''Dadda'')) = 4.25
   \<and> max_frequency_mhz (estimate_metrics (new_results ''Dadda'')) = 1000 / 4.25
   \<and> max_frequency_mhz (set_max_frequency (new_results ''Dadda'')) = 0"
proof -
  have s: "synthesize_design ''Dadda'' (Completed '''') = Some (estimate_metrics (new_results ''Dadda''))"
    by (simp add: synthesize_design_def parse_yosys_output_def)
  have d: "critical_path_delay_ns (estimate_metrics (new_results ''Dadda'')) = 4.25"
    by (simp add: estimate_metrics_delay estimate_critical_path_def new_results_def Let_def tree_levels_code)
  have z: "\<not> 0 < critical_path_delay_ns (new_results ''Dadda'') \<and> max_frequency_mhz (new_results ''Dadda'') = 0"
    by (simp add: new_results_def)
  show ?thesis
    using frequency_inversion [of "''Dadda''" "Completed ''''" "estimate_metrics (new_results ''Dadda'')"]
      frequency_inversion [of "''Dadda''" "Completed ''''" "new_results ''Dadda''"] s d z
    by simp
qed

lemmas placeholder_defs =
  placeholder_classical_def placeholder_dadda_def placeholder_wallace_def new_results_def

lemma fallback_store_eq:
  "fallback_store = [(''Classical'', placeholder_classical), (''Dadda'', placeholder_dadda),
                     (''Wallace'', placeholder_wallace)]"
  by (simp add: fallback_store_def analyze_all_results_def)

text \<open>
  Claim C2 as stated fails on the fallback store: its Classical record has delay 9.6 and
  frequency 104.2, and 1000 / 9.6 is 104.1666..., a relative distance of about 3e-4.
\<close>

theorem fallback_frequency_counterexample:
  "map_of fallback_store ''Classical'' = Some placeholder_classical
   \<and> 0 < critical_path_delay_ns placeholder_classical
   \<and> \<not> \<bar>max_frequency_mhz placeholder_classical - 1000 / critical_path_delay_ns placeholder_classical\<bar>
         \<le> (1 / 10 ^ 9) * \<bar>1000 / critical_path_delay_ns placeholder_classical\<bar>"
  by (simp add: fallback_store_def analyze_all_results_def placeholder_classical_def new_results_def)

section \<open>Facts about the report\<close>

lemma py_bind_Inr: "py_bind m f = Inr y \<longleftrightarrow> (\<exists>x. m = Inr x \<and> f x = Inr y)"
  by (cases m) (simp_all add: py_bind_def)


lemma min_from_snoc:
  "min_from key b (xs @ [x]) = (if key x < key (min_from key b xs) then x else min_from key b xs)"
  by (induction xs arbitrary: b) simp_all

lemma min_from_first:
  "\<exists>pre post. b # xs = pre @ min_from key b xs # post
     \<and> (\<forall>y\<in>set pre. key (min_from key b xs) < key y)
     \<and> (\<forall>y\<in>set post. key (min_from key b xs) \<le> key y)"
proof (induction xs rule: rev_induct)
  case Nil
  show ?case by (intro exI [of _ "[]"]) simp
next
  case (snoc x xs)
  then obtain pre post where d: "b # xs = pre @ min_from key b xs # post"
    and lt: "\<forall>y\<in>set pre. key (min_from key b xs) < key y"
    and le: "\<forall>y\<in>set post. key (min_from key b xs) \<le> key y"
    by blast
  show ?case
  proof (cases "key x < key (min_from key b xs)")
    case True
    then have m: "min_from key b (xs @ [x]) = x" by (simp add: min_from_snoc)
    have "\<forall>y\<in>set (b # xs). key x < key y"
    proof
      fix y assume "y \<in> set (b # xs)"
      then have "y \<in> set pre \<or> y = min_from key b xs \<or> y \<in> set post"
        unfolding d by auto
      then show "key x < key y" using lt le True by fastforce
    qed
    then show ?thesis
      unfolding m by (intro exI [of _ "b # xs"] exI [of _ "[]"]) simp
  next
    case False
    then have m: "min_from key b (xs @ [x]) = min_from key b xs" by (simp add: min_from_snoc)
    have "b # xs @ [x] = pre @ min_from key b xs # (post @ [x])"
      using d by simp
    moreover have "\<forall>y\<in>set (post @ [x]). key (min_from key b xs) \<le> key y"
      using le False by auto
    ultimately show ?thesis
      unfolding m using lt by (intro exI [of _ pre] exI [of _ "post @ [x]"]) simp
  qed
qed

lemma py_min_by_first:
  assumes "py_min_by key xs = Inr m"
  shows "\<exists>pre post. xs = pre @ m # post
     \<and> (\<forall>y\<in>set pre. key m < key y) \<and> (\<forall>y\<in>set post. key m \<le> key y)"
proof (cases xs)
  case Nil
  with assms show ?thesis by (simp add: py_min_by_def)
next
  case (Cons b ys)
  with assms have "m = min_from key b ys" by (simp add: py_min_by_def)
  then show ?thesis using min_from_first [of b ys key] Cons by simp
qed

lemma min_from_id: "min_from id b xs = fold min xs b"
  by (induction xs arbitrary: b) (simp_all add: min_def)

lemma max_from_id: "max_from id b xs = fold max xs b"
  by (induction xs arbitrary: b) (simp_all add: max_def)

lemma py_min_Inr: "py_min xs = Inr m \<longleftrightarrow> xs \<noteq> [] \<and> m = Min (set xs)"
proof (cases xs)
  case Nil
  then show ?thesis by (simp add: py_min_def py_min_by_def)
next
  case (Cons b ys)
  have "fold min ys b = Min (set (b # ys))" by (simp only: Min.set_eq_fold)
  with Cons show ?thesis by (auto simp: py_min_def py_min_by_def min_from_id)
qed

lemma py_max_Inr: "py_max xs = Inr m \<longleftrightarrow> xs \<noteq> [] \<and> m = Max (set xs)"
proof (cases xs)
  case Nil
  then show ?thesis by (simp add: py_max_def)
next
  case (Cons b ys)
  have "fold max ys b = Max (set (b # ys))" by (simp only: Max.set_eq_fold)
  with Cons show ?thesis by (auto simp: py_max_def max_from_id)
qed



lemma snd_case_pair: "snd (case x of (n, res) \<Rightarrow> (n, f res)) = f (snd x)"
  by (cases x) simp

lemma generate_report_parts:
  assumes "generate_report st = Inr (Comparison rep)"
  shows "st \<noteq> []"
    and "table_rows (\<lambda>res. py_div (estimated_area_ge res) (Min (set (map (estimated_area_ge \<circ> snd) st))))
           st canonical = Inr (area_relative rep)"
    and "table_rows (\<lambda>res. py_div (Max (set (map (critical_path_delay_ns \<circ> snd) st))) (critical_path_delay_ns res))
           st canonical = Inr (timing_speedup rep)"
    and "table_rows (\<lambda>res. py_div (estimated_power_mw res) (Min (set (map (estimated_power_mw \<circ> snd) st))))
           st canonical = Inr (power_relative rep)"
    and "faster_than_classical st ''Wallace'' = Inr (wallace_faster_than_classical rep)"
    and "faster_than_classical st ''Dadda'' = Inr (dadda_faster_than_classical rep)"
    and "wallace_dadda st = Inr (wallace_vs_dadda rep)"
    and "\<exists>m. py_min_by (\<lambda>x. critical_path_delay_ns (snd x)) st = Inr m \<and> best_speed rep = fst m"
    and "\<exists>m. py_min_by (\<lambda>x. estimated_area_ge (snd x)) st = Inr m \<and> best_area rep = fst m"
    and "\<exists>m. py_min_by (\<lambda>x. estimated_power_mw (snd x)) st = Inr m \<and> best_power rep = fst m"
  using assms
  by (auto simp: generate_report_def Let_def py_bind_Inr snd_case_pair py_min_Inr py_max_Inr
        split: if_splits)

lemmas report_defs =
  generate_report_def py_bind_def py_div_def py_min_def py_max_def py_min_by_def
  canonical_def faster_than_classical_def wallace_dadda_def

lemma reversed_store_eq:
  "reversed_store = [(''Wallace'', placeholder_wallace), (''Dadda'', placeholder_dadda)]"
  by (simp add: reversed_store_def)

lemma generate_report_fallback:
  "generate_report fallback_store = Inr (Comparison fallback_report)"
  by (simp add: fallback_store_eq fallback_report_def report_defs placeholder_defs)

lemma generate_report_reversed:
  "generate_report reversed_store = Inr (Comparison reversed_report)"
  by (simp add: reversed_store_eq reversed_report_def report_defs placeholder_defs)

section \<open>Empty, partial and degenerate stores\<close>

lemma silent_classical_store_eq:
  "silent_classical_store = [(''Classical'', estimate_metrics (new_results ''Classical''))]"
  by (simp add: silent_classical_store_def analyze_all_results_def synthesize_design_def
        parse_yosys_output_def)

lemma estimate_metrics_zero_area:
  "estimated_area_ge (estimate_metrics (new_results n)) = 0"
  by (simp add: estimate_metrics_def set_max_frequency_def calculate_area_def new_results_def Let_def)

text \<open>
  Claim C8. A tool run whose output has no hierarchy section parses to the zero record,
  whose area estimate is 0.0. On the store that holds only this Classical record the area
  table divides 0.0 by the minimum area 0.0: \<open>generate_report\<close> raises
  \<open>ZeroDivisionError\<close>.
\<close>

theorem report_zero_area_raises:
  "generate_report silent_classical_store = Inl ZeroDivisionError"
  by (simp add: silent_classical_store_eq generate_report_def py_min_def py_min_by_def
        py_bind_def canonical_def py_div_def estimate_metrics_zero_area)

lemma generate_report_empty: "generate_report [] = Inr NoResults"
  by (simp add: generate_report_def)

text \<open>
  What does hold on partial stores: the three comparisons of section 5 are made exactly
  for the pairs that are present, and a non-empty store whose areas, delays and powers are
  all positive gets a report, whichever variants are missing.
\<close>

lemma faster_than_classical_present:
  "faster_than_classical st n = Inr q \<Longrightarrow>
     (q \<noteq> None \<longleftrightarrow> map_of st ''Classical'' \<noteq> None \<and> map_of st n \<noteq> None)"
  by (auto simp: faster_than_classical_def py_bind_Inr split: option.splits)

lemma wallace_dadda_present:
  "wallace_dadda st = Inr q \<Longrightarrow>
     (q \<noteq> None \<longleftrightarrow> map_of st ''Wallace'' \<noteq> None \<and> map_of st ''Dadda'' \<noteq> None)"
  by (auto simp: wallace_dadda_def py_bind_Inr Let_def split: option.splits)

lemma pairs_only_when_present:
  assumes "generate_report st = Inr (Comparison rep)"
  shows "(wallace_faster_than_classical rep \<noteq> None
            \<longleftrightarrow> map_of st ''Classical'' \<noteq> None \<and> map_of st ''Wallace'' \<noteq> None)
       \<and> (dadda_faster_than_classical rep \<noteq> None
            \<longleftrightarrow> map_of st ''Classical'' \<noteq> None \<and> map_of st ''Dadda'' \<noteq> None)
       \<and> (wallace_vs_dadda rep \<noteq> None
            \<longleftrightarrow> map_of st ''Wallace'' \<noteq> None \<and> map_of st ''Dadda'' \<noteq> None)"
  using generate_report_parts(5,6,7) [OF assms]
    faster_than_classical_present [of st "''Wallace''" "wallace_faster_than_classical rep"]
    faster_than_classical_present [of st "''Dadda''" "dadda_faster_than_classical rep"]
    wallace_dadda_present [of st "wallace_vs_dadda rep"]
  by blast

lemma faster_than_classical_defined:
  assumes "\<And>n r. map_of st n = Some r \<Longrightarrow> critical_path_delay_ns r \<noteq> 0"
  shows "\<exists>q. faster_than_classical st n = Inr q"
proof (cases "map_of st ''Classical''")
  case None
  then show ?thesis by (simp add: faster_than_classical_def)
next
  case c: (Some c)
  show ?thesis
  proof (cases "map_of st n")
    case None
    then show ?thesis using c by (simp add: faster_than_classical_def)
  next
    case (Some w)
    then show ?thesis
      using c assms [OF Some] by (simp add: faster_than_classical_def py_bind_def py_div_def)
  qed
qed

lemma table_rows_defined:
  assumes "\<And>n r. map_of st n = Some r \<Longrightarrow> \<exists>v. f r = Inr v"
  shows "\<exists>rows. table_rows f st ns = Inr rows"
proof (induction ns)
  case Nil
  show ?case by simp
next
  case (Cons n ns)
  then obtain rows where r: "table_rows f st ns = Inr rows" by blast
  show ?case
  proof (cases "map_of st n")
    case None
    with r show ?thesis by simp
  next
    case (Some res)
    with assms obtain v where "f res = Inr v" by blast
    with r Some show ?thesis by (simp add: py_bind_def)
  qed
qed

lemma generate_report_defined:
  assumes "st \<noteq> []"
    and "\<forall>x\<in>set st. 0 < estimated_area_ge (snd x) \<and> 0 < critical_path_delay_ns (snd x)
           \<and> 0 < estimated_power_mw (snd x)"
  shows "\<exists>rep. generate_report st = Inr (Comparison rep)"
proof -
  have mem: "\<And>n r. map_of st n = Some r \<Longrightarrow> (n, r) \<in> set st" by (rule map_of_SomeD)
  define min_area where "min_area = Min (set (map (estimated_area_ge \<circ> snd) st))"
  define max_delay where "max_delay = Max (set (map (critical_path_delay_ns \<circ> snd) st))"
  define min_power where "min_power = Min (set (map (estimated_power_mw \<circ> snd) st))"
  have "min_area \<in> set (map (estimated_area_ge \<circ> snd) st)"
    unfolding min_area_def using assms(1) by (intro Min_in) simp_all
  then have a0: "min_area \<noteq> 0" using assms(2) by auto
  have "min_power \<in> set (map (estimated_power_mw \<circ> snd) st)"
    unfolding min_power_def using assms(1) by (intro Min_in) simp_all
  then have p0: "min_power \<noteq> 0" using assms(2) by auto
  have d0: "\<And>n r. map_of st n = Some r \<Longrightarrow> critical_path_delay_ns r \<noteq> 0"
    using assms(2) mem by fastforce
  have w0: "\<And>n r. map_of st n = Some r \<Longrightarrow> estimated_area_ge r \<noteq> 0"
    using assms(2) mem by fastforce
  have m1: "py_min (map (estimated_area_ge \<circ> snd) st) = Inr min_area"
    using assms(1) by (simp add: py_min_Inr min_area_def)
  have m2: "py_max (map (critical_path_delay_ns \<circ> snd) st) = Inr max_delay"
    using assms(1) by (simp add: py_max_Inr max_delay_def)
  have m3: "py_min (map (estimated_power_mw \<circ> snd) st) = Inr min_power"
    using assms(1) by (simp add: py_min_Inr min_power_def)
  obtain ar where t1: "table_rows (\<lambda>res. py_div (estimated_area_ge res) min_area) st canonical = Inr ar"
    using table_rows_defined [of st "\<lambda>res. py_div (estimated_area_ge res) min_area" canonical] a0
    by (auto simp: py_div_def)
  obtain tr where t2: "table_rows (\<lambda>res. py_div max_delay (critical_path_delay_ns res)) st canonical = Inr tr"
    using table_rows_defined [of st "\<lambda>res. py_div max_delay (critical_path_delay_ns res)" canonical] d0
    by (auto simp: py_div_def)
  obtain pr where t3: "table_rows (\<lambda>res. py_div (estimated_power_mw res) min_power) st canonical = Inr pr"
    using table_rows_defined [of st "\<lambda>res. py_div (estimated_power_mw res) min_power" canonical] p0
    by (auto simp: py_div_def)
  obtain cw where f1: "faster_than_classical st ''Wallace'' = Inr cw"
    using faster_than_classical_defined [of st "''Wallace''"] d0 by blast
  obtain cd where f2: "faster_than_classical st ''Dadda'' = Inr cd"
    using faster_than_classical_defined [of st "''Dadda''"] d0 by blast
  have "\<exists>wd. wallace_dadda st = Inr wd"
  proof (cases "map_of st ''Wallace''")
    case None
    then show ?thesis by (simp add: wallace_dadda_def)
  next
    case w: (Some w)
    show ?thesis
    proof (cases "map_of st ''Dadda''")
      case None
      then show ?thesis using w by (simp add: wallace_dadda_def)
    next
      case d: (Some d)
      have "min (critical_path_delay_ns w) (critical_path_delay_ns d) \<noteq> 0"
        using d0 [OF w] d0 [OF d] by (simp add: min_def)
      then show ?thesis
        using w d w0 [OF w] by (simp add: wallace_dadda_def Let_def py_bind_def py_div_def)
    qed
  qed
  then obtain wd where f3: "wallace_dadda st = Inr wd" by blast
  obtain x xs where st: "st = x # xs" using assms(1) by (cases st) auto
  have b: "\<And>key. \<exists>m. py_min_by key st = Inr m" by (simp add: st py_min_by_def)
  obtain s1 where b1: "py_min_by (\<lambda>x. critical_path_delay_ns (snd x)) st = Inr s1" using b by blast
  obtain s2 where b2: "py_min_by (\<lambda>x. estimated_area_ge (snd x)) st = Inr s2" using b by blast
  obtain s3 where b3: "py_min_by (\<lambda>x. estimated_power_mw (snd x)) st = Inr s3" using b by blast
  have snd_eq: "\<And>f. map (snd \<circ> (\<lambda>(n, res). (n, f res))) st = map (f \<circ> snd) st"
    by (simp add: comp_def snd_case_pair)
  show ?thesis
    using assms(1) m1 m2 m3 t1 t2 t3 f1 f2 f3 b1 b2 b3
    by (simp add: generate_report_def Let_def py_bind_def snd_eq)
qed

section \<open>Relative ratios\<close>




section \<open>Ties in the selections\<close>

lemma analyze_all_results_sorted:
  "sorted_wrt (\<lambda>a b. canonical_rank (fst a) < canonical_rank (fst b))
     (analyze_all_results has_yosys pc pd pw)"
  by (cases "synthesize_design ''Classical'' pc"; cases "synthesize_design ''Dadda'' pd";
      cases "synthesize_design ''Wallace'' pw")
     (simp_all add: analyze_all_results_def canonical_rank_def canonical_def)

lemma first_minimal:
  assumes "py_min_by (\<lambda>x. key (snd x)) st = Inr m"
  shows "\<exists>pre r post. st = pre @ (fst m, r) # post
           \<and> (\<forall>y\<in>set pre. key r < key (snd y)) \<and> (\<forall>y\<in>set post. key r \<le> key (snd y))"
  using py_min_by_first [OF assms] by (cases m) auto

lemma first_minimal_rank:
  assumes "py_min_by (\<lambda>x. key (snd x)) st = Inr m"
    and "sorted_wrt (\<lambda>a b. canonical_rank (fst a) < canonical_rank (fst b)) st"
    and "map_of st n' = Some r'" and "\<forall>y\<in>set st. key r' \<le> key (snd y)"
  shows "canonical_rank (fst m) \<le> canonical_rank n'"
proof -
  from py_min_by_first [OF assms(1)] obtain pre post where
    d: "st = pre @ m # post" and lt: "\<forall>y\<in>set pre. key (snd m) < key (snd y)"
    by blast
  have "m \<in> set st" using d by simp
  with assms(4) have le: "key r' \<le> key (snd m)" by blast
  have "(n', r') \<in> set st" using assms(3) by (rule map_of_SomeD)
  then have "(n', r') \<in> set pre \<or> (n', r') = m \<or> (n', r') \<in> set post"
    unfolding d by auto
  moreover have "(n', r') \<notin> set pre" using lt le by fastforce
  moreover have "\<forall>y\<in>set post. canonical_rank (fst m) < canonical_rank (fst y)"
    using assms(2) unfolding d by (simp add: sorted_wrt_append)
  ultimately show ?thesis by fastforce
qed

text \<open>
  Claim C3, as amended. The fastest, smallest and least-power selections pick, among the
  entries with the minimum value, the one that was inserted first: every entry before it
  in the store is strictly larger, every entry after it is at least as large. In a store
  built by \<open>analyze_all\<close> insertion order is the order Classical, Dadda, Wallace, so
  there no variant holding the minimum comes earlier in that order than the selected one.
\<close>

theorem best_is_first_minimal:
  assumes "generate_report st = Inr (Comparison rep)"
  shows "(\<exists>pre r post. st = pre @ (best_speed rep, r) # post
            \<and> (\<forall>y\<in>set pre. critical_path_delay_ns r < critical_path_delay_ns (snd y))
            \<and> (\<forall>y\<in>set post. critical_path_delay_ns r \<le> critical_path_delay_ns (snd y)))
       \<and> (\<exists>pre r post. st = pre @ (best_area rep, r) # post
            \<and> (\<forall>y\<in>set pre. estimated_area_ge r < estimated_area_ge (snd y))
            \<and> (\<forall>y\<in>set post. estimated_area_ge r \<le> estimated_area_ge (snd y)))
       \<and> (\<exists>pre r post. st = pre @ (best_power rep, r) # post
            \<and> (\<forall>y\<in>set pre. estimated_power_mw r < estimated_power_mw (snd y))
            \<and> (\<forall>y\<in>set post. estimated_power_mw r \<le> estimated_power_mw (snd y)))
       \<and> (st = analyze_all_results has_yosys pc pd pw \<longrightarrow>
            (\<forall>n' r'. map_of st n' = Some r'
                \<and> (\<forall>y\<in>set st. critical_path_delay_ns r' \<le> critical_path_delay_ns (snd y))
                \<longrightarrow> canonical_rank (best_speed rep) \<le> canonical_rank n')
          \<and> (\<forall>n' r'. map_of st n' = Some r'
                \<and> (\<forall>y\<in>set st. estimated_area_ge r' \<le> estimated_area_ge (snd y))
                \<longrightarrow> canonical_rank (best_area rep) \<le> canonical_rank n')
          \<and> (\<forall>n' r'. map_of st n' = Some r'
                \<and> (\<forall>y\<in>set st. estimated_power_mw r' \<le> estimated_power_mw (snd y))
                \<longrightarrow> canonical_rank (best_power rep) \<le> canonical_rank n'))"
proof -
  note p = generate_report_parts [OF assms]
  from p(8) obtain ms where ms: "py_min_by (\<lambda>x. critical_path_delay_ns (snd x)) st = Inr ms"
    "best_speed rep = fst ms" by blast
  from p(9) obtain ma where ma: "py_min_by (\<lambda>x. estimated_area_ge (snd x)) st = Inr ma"
    "best_area rep = fst ma" by blast
  from p(10) obtain mp where mp: "py_min_by (\<lambda>x. estimated_power_mw (snd x)) st = Inr mp"
    "best_power rep = fst mp" by blast
  have 1: "\<exists>pre r post. st = pre @ (best_speed rep, r) # post
            \<and> (\<forall>y\<in>set pre. critical_path_delay_ns r < critical_path_delay_ns (snd y))
            \<and> (\<forall>y\<in>set post. critical_path_delay_ns r \<le> critical_path_delay_ns (snd y))"
    using first_minimal [of critical_path_delay_ns st ms] ms by simp
  have 2: "\<exists>pre r post. st = pre @ (best_area rep, r) # post
            \<and> (\<forall>y\<in>set pre. estimated_area_ge r < estimated_area_ge (snd y))
            \<and> (\<forall>y\<in>set post. estimated_area_ge r \<le> estimated_area_ge (snd y))"
    using first_minimal [of estimated_area_ge st ma] ma by simp
  have 3: "\<exists>pre r post. st = pre @ (best_power rep, r) # post
            \<and> (\<forall>y\<in>set pre. estimated_power_mw r < estimated_power_mw (snd y))
            \<and> (\<forall>y\<in>set post. estimated_power_mw r \<le> estimated_power_mw (snd y))"
    using first_minimal [of estimated_power_mw st mp] mp by simp
  have 4: "st = analyze_all_results has_yosys pc pd pw \<longrightarrow>
            (\<forall>n' r'. map_of st n' = Some r'
                \<and> (\<forall>y\<in>set st. critical_path_delay_ns r' \<le> critical_path_delay_ns (snd y))
                \<longrightarrow> canonical_rank (best_speed rep) \<le> canonical_rank n')
          \<and> (\<forall>n' r'. map_of st n' = Some r'
                \<and> (\<forall>y\<in>set st. estimated_area_ge r' \<le> estimated_area_ge (snd y))
                \<longrightarrow> canonical_rank (best_area rep) \<le> canonical_rank n')
          \<and> (\<forall>n' r'. map_of st n' = Some r'
                \<and> (\<forall>y\<in>set st. estimated_power_mw r' \<le> estimated_power_mw (snd y))
                \<longrightarrow> canonical_rank (best_power rep) \<le> canonical_rank n')"
  proof
    assume e: "st = analyze_all_results has_yosys pc pd pw"
    have s: "sorted_wrt (\<lambda>a b. canonical_rank (fst a) < canonical_rank (fst b)) st"
      unfolding e by (rule analyze_all_results_sorted)
    show "(\<forall>n' r'. map_of st n' = Some r'
                \<and> (\<forall>y\<in>set st. critical_path_delay_ns r' \<le> critical_path_delay_ns (snd y))
                \<longrightarrow> canonical_rank (best_speed rep) \<le> canonical_rank n')
          \<and> (\<forall>n' r'. map_of st n' = Some r'
                \<and> (\<forall>y\<in>set st. estimated_area_ge r' \<le> estimated_area_ge (snd y))
                \<longrightarrow> canonical_rank (best_area rep) \<le> canonical_rank n')
          \<and> (\<forall>n' r'. map_of st n' = Some r'
                \<and> (\<forall>y\<in>set st. estimated_power_mw r' \<le> estimated_power_mw (snd y))
                \<longrightarrow> canonical_rank (best_power rep) \<le> canonical_rank n')"
      using first_minimal_rank [OF ms(1) s] first_minimal_rank [OF ma(1) s]
        first_minimal_rank [OF mp(1) s] ms(2) ma(2) mp(2)
      by (intro conjI allI impI) auto
  qed
  from 1 2 3 4 show ?thesis by (intro conjI)
qed

theorem best_is_first_minimal_witness:
  "generate_report fallback_store = Inr (Comparison fallback_report)
   \<and> fallback_store = analyze_all_results False TimeoutExpired TimeoutExpired TimeoutExpired
   \<and> map_of fallback_store ''Wallace'' = Some placeholder_wallace
   \<and> critical_path_delay_ns placeholder_wallace = critical_path_delay_ns placeholder_dadda
   \<and> best_speed fallback_report = ''Dadda''
   \<and> canonical_rank (best_speed fallback_report) \<le> canonical_rank ''Wallace''"
proof -
  have w: "map_of fallback_store ''Wallace'' = Some placeholder_wallace"
    by (simp add: fallback_store_eq)
  have m: "\<forall>y\<in>set fallback_store.
      critical_path_delay_ns placeholder_wallace \<le> critical_path_delay_ns (snd y)"
    by (simp add: fallback_store_eq placeholder_defs)
  have "canonical_rank (best_speed fallback_report) \<le> canonical_rank ''Wallace''"
    using best_is_first_minimal [OF generate_report_fallback,
        of False TimeoutExpired TimeoutExpired TimeoutExpired] w m
    unfolding fallback_store_def by blast
  then show ?thesis
    using generate_report_fallback w
    by (simp add: fallback_store_def fallback_report_def placeholder_defs)
qed

text \<open>
  Claim C3 as stated fails on a store filled in another order: with Wallace inserted
  before Dadda and equal delays, the fastest selection is Wallace.
\<close>

theorem insertion_order_counterexample:
  "generate_report reversed_store = Inr (Comparison reversed_report)
   \<and> reversed_store = [(''Wallace'', placeholder_wallace), (''Dadda'', placeholder_dadda)]
   \<and> critical_path_delay_ns placeholder_dadda = critical_path_delay_ns placeholder_wallace
   \<and> canonical_rank ''Dadda'' < canonical_rank ''Wallace''
   \<and> best_speed reversed_report = ''Wallace''"
  using generate_report_reversed
  by (simp add: reversed_store_eq reversed_report_def placeholder_defs canonical_rank_def
        canonical_def)

section \<open>Facts about the parser\<close>

lemma digit_val_nonneg: "is_digit c \<Longrightarrow> 0 \<le> digit_val c"
  by (auto simp: is_digit_def digit_val_def)

lemma digits_value_nonneg:
  "0 \<le> acc \<Longrightarrow> list_all is_digit ds \<Longrightarrow> 0 \<le> digits_value acc ds"
  by (induction ds arbitrary: acc) (simp_all add: digit_val_nonneg)

lemma takeWhile_all: "list_all P (takeWhile P xs)"
  by (induction xs) simp_all

lemma py_int_digits:
  "ds \<noteq> [] \<Longrightarrow> list_all is_digit ds \<Longrightarrow>
     py_int ds = (if within_limit ds then Inr (digits_value 0 ds) else Inl ValueError)"
  by (simp add: py_int_def within_limit_def)

lemma match_gate_line_digits:
  "match_gate_line line = Some (g1, g2) \<Longrightarrow> g1 \<noteq> [] \<and> list_all is_digit g1"
  by (auto simp: match_gate_line_def Let_def takeWhile_all split: if_splits option.splits)

lemma match_count_digits:
  "match_count kw s = Some ds \<Longrightarrow> ds \<noteq> [] \<and> list_all is_digit ds"
  by (auto simp: match_count_def Let_def takeWhile_all split: if_splits)

lemma search_count_digits:
  "search_count kw s = Some ds \<Longrightarrow> ds \<noteq> [] \<and> list_all is_digit ds"
  by (induction s) (auto dest: match_count_digits split: option.splits)

lemma search_int_eq:
  "search_int kw s =
     (case search_count kw s of
        None \<Rightarrow> Inr None
      | Some ds \<Rightarrow> if within_limit ds then Inr (Some (digits_value 0 ds)) else Inl ValueError)"
  using search_count_digits [of kw s]
  by (cases "search_count kw s") (simp_all add: search_int_def py_int_digits)

lemma match_gate_line_Nil: "match_gate_line [] = None"
  by (simp add: match_gate_line_def)

lemma parse_lines_fold:
  "parse_lines ls r =
     (if list_all within_limit (line_ints ls) then Inr (fold line_step ls r) else Inl ValueError)"
proof (induction ls arbitrary: r)
  case Nil
  show ?case by simp
next
  case (Cons l ls)
  show ?case
  proof (cases "match_gate_line (strip l)")
    case None
    then have "line_step l r = r" by (simp add: line_step_def)
    then show ?thesis using Cons None by (simp add: Let_def)
  next
    case (Some g)
    obtain g1 g2 where g: "g = (g1, g2)" by (cases g)
    have ne: "strip l \<noteq> []" using Some match_gate_line_Nil by auto
    have s: "line_step l r = set_gate g2 (digits_value 0 g1) r"
      using Some g by (simp add: line_step_def)
    have "py_int g1 = (if within_limit g1 then Inr (digits_value 0 g1) else Inl ValueError)"
      using match_gate_line_digits [of "strip l" g1 g2] Some g by (simp add: py_int_digits)
    then show ?thesis using Cons Some g ne s by (simp add: Let_def)
  qed
qed

lemma gate_count_set_gate:
  "t \<in> set gate_tokens \<Longrightarrow> gate_count t (set_gate g c r) = (if g = t then c else gate_count t r)"
  by (auto simp: gate_tokens_def gate_count_def set_gate_def)

lemma gate_count_line_step:
  "t \<in> set gate_tokens \<Longrightarrow>
     gate_count t (line_step l r) =
       (case match_gate_line (strip l) of
          None \<Rightarrow> gate_count t r
        | Some (g1, g2) \<Rightarrow> if g2 = t then digits_value 0 g1 else gate_count t r)"
  by (simp add: line_step_def gate_count_set_gate split: option.splits prod.splits)

lemma gate_count_fold_unmatched:
  assumes "t \<in> set gate_tokens"
    and "\<forall>l\<in>set ls. \<forall>ds. match_gate_line (strip l) \<noteq> Some (ds, t)"
  shows "gate_count t (fold line_step ls r) = gate_count t r"
  using assms(2)
proof (induction ls arbitrary: r)
  case Nil
  show ?case by simp
next
  case (Cons l ls)
  have "gate_count t (line_step l r) = gate_count t r"
    using Cons.prems assms(1) by (auto simp: gate_count_line_step split: option.splits)
  with Cons show ?case by simp
qed

lemma gate_count_fold_last:
  assumes "t \<in> set gate_tokens"
    and "match_gate_line (strip l) = Some (ds, t)"
    and "\<forall>l'\<in>set post. \<forall>ds'. match_gate_line (strip l') \<noteq> Some (ds', t)"
  shows "gate_count t (fold line_step (pre @ l # post) r) = digits_value 0 ds"
proof -
  have "gate_count t (fold line_step (pre @ l # post) r)
          = gate_count t (line_step l (fold line_step pre r))"
    using gate_count_fold_unmatched [OF assms(1,3)] by simp
  also have "\<dots> = digits_value 0 ds"
    using assms(1,2) by (simp add: gate_count_line_step)
  finally show ?thesis .
qed

lemma set_gate_nonneg: "0 \<le> c \<Longrightarrow> counts_nonneg r \<Longrightarrow> counts_nonneg (set_gate g c r)"
  by (simp add: set_gate_def counts_nonneg_def)

lemma line_step_nonneg: "counts_nonneg r \<Longrightarrow> counts_nonneg (line_step l r)"
proof (cases "match_gate_line (strip l)")
  case None
  then show "counts_nonneg r \<Longrightarrow> ?thesis" by (simp add: line_step_def)
next
  case (Some g)
  obtain g1 g2 where g: "g = (g1, g2)" by (cases g)
  have "0 \<le> digits_value 0 g1"
    using match_gate_line_digits [of "strip l" g1 g2] Some g by (simp add: digits_value_nonneg)
  then show "counts_nonneg r \<Longrightarrow> ?thesis"
    using Some g by (simp add: line_step_def set_gate_nonneg)
qed

lemma fold_line_step_nonneg: "counts_nonneg r \<Longrightarrow> counts_nonneg (fold line_step ls r)"
  by (induction ls arbitrary: r) (simp_all add: line_step_nonneg)

lemma parse_section_eq:
  "parse_section text r0 =
     (if list_all within_limit (int_arguments text)
      then Inr (fold line_step (split_nl text) (section_counts text r0))
      else Inl ValueError)"
  by (simp add: parse_section_def search_int_eq parse_lines_fold section_counts_def Let_def
        int_arguments_def search_ints_def split: option.splits)

lemma parse_section_error: "parse_section text r0 = Inl e \<Longrightarrow> e = ValueError"
  by (simp add: parse_section_eq split: if_splits)

lemma search_count_nonneg: "search_count kw s = Some ds \<Longrightarrow> 0 \<le> digits_value 0 ds"
  using search_count_digits [of kw s ds] by (simp add: digits_value_nonneg)

lemma section_counts_nonneg: "counts_nonneg (section_counts text (new_results n))"
  by (auto simp: section_counts_def counts_nonneg_def new_results_def Let_def
        dest: search_count_nonneg split: option.splits)

lemma section_counts_gate:
  "gate_count t (section_counts text (new_results n)) = 0"
  by (simp add: section_counts_def gate_count_def new_results_def Let_def split: option.splits)

lemma set_gate_other_fields:
  "total_cells (set_gate g c r) = total_cells r"
  "wires (set_gate g c r) = wires r"
  "public_wires (set_gate g c r) = public_wires r"
  "memories (set_gate g c r) = memories r"
  "processes (set_gate g c r) = processes r"
  "name (set_gate g c r) = name r"
  by (simp_all add: set_gate_def)

lemma line_step_other_fields:
  "total_cells (line_step l r) = total_cells r"
  "wires (line_step l r) = wires r"
  "public_wires (line_step l r) = public_wires r"
  "memories (line_step l r) = memories r"
  "processes (line_step l r) = processes r"
  "name (line_step l r) = name r"
  by (simp_all add: line_step_def set_gate_other_fields split: option.splits)

lemma fold_line_step_other_fields:
  "total_cells (fold line_step ls r) = total_cells r"
  "wires (fold line_step ls r) = wires r"
  "public_wires (fold line_step ls r) = public_wires r"
  "memories (fold line_step ls r) = memories r"
  "processes (fold line_step ls r) = processes r"
  "name (fold line_step ls r) = name r"
  by (induction ls arbitrary: r) (simp_all add: line_step_other_fields)

lemma section_counts_fields:
  "total_cells (section_counts text (new_results n))
     = (case search_count ''cells'' text of None \<Rightarrow> 0 | Some ds \<Rightarrow> digits_value 0 ds)"
  "wires (section_counts text (new_results n))
     = (case search_count ''wires'' text of None \<Rightarrow> 0 | Some ds \<Rightarrow> digits_value 0 ds)"
  "public_wires (section_counts text (new_results n))
     = (case search_count ''public wires'' text of None \<Rightarrow> 0 | Some ds \<Rightarrow> digits_value 0 ds)"
  "name (section_counts text (new_results n)) = n"
  by (simp_all add: section_counts_def new_results_def Let_def split: option.splits)

section \<open>Facts about the sections\<close>

lemma lazy_body_append: "lazy_body s = (b, rest) \<Longrightarrow> s = b @ rest"
  by (induction s arbitrary: b) (auto split: if_splits prod.splits)

lemma lazy_body_closed: "lazy_body s = (b, rest) \<Longrightarrow> lazy_body b = (b, [])"
proof (induction s arbitrary: b rest)
  case Nil
  then show ?case by simp
next
  case (Cons c cs)
  show ?case
  proof (cases "prefix section_end (c # cs)")
    case True
    with Cons.prems show ?thesis by simp
  next
    case False
    obtain b' r' where l: "lazy_body cs = (b', r')" by (cases "lazy_body cs")
    with Cons.prems False have b: "b = c # b'" and r: "rest = r'" by simp_all
    have cs: "cs = b' @ r'" using l by (rule lazy_body_append)
    have "\<not> prefix section_end (c # b')"
    proof
      assume "prefix section_end (c # b')"
      then have "prefix section_end ((c # b') @ r')" by (rule prefix_prefix)
      with False cs show False by simp
    qed
    with Cons.IH [OF l] b show ?thesis by simp
  qed
qed

lemma header_length: "length header = 24"
  by (simp add: header_def)

lemma finditer_section:
  assumes "lazy_body b = (b, [])"
  shows "finditer_hierarchy (header @ b) = [header @ b]"
proof -
  have "header @ b \<noteq> []" by (simp add: header_def)
  moreover have "prefix header (header @ b)" by simp
  moreover have "drop (length header) (header @ b) = b" by simp
  ultimately show ?thesis
    using assms
    by (subst finditer_hierarchy.simps) (simp add: finditer_Nil)
qed

lemma finditer_members:
  "sec \<in> set (finditer_hierarchy s) \<Longrightarrow> finditer_hierarchy sec = [sec]"
proof (induction s rule: finditer_hierarchy.induct)
  case (1 s)
  show ?case
  proof (cases "s = []")
    case True
    with "1.prems" show ?thesis by simp
  next
    case ne: False
    show ?thesis
    proof (cases "prefix header s")
      case True
      obtain b rest where l: "lazy_body (drop (length header) s) = (b, rest)"
        by (cases "lazy_body (drop (length header) s)")
      have f: "finditer_hierarchy s = (header @ b) # finditer_hierarchy rest"
        using ne True l by (subst finditer_hierarchy.simps) simp
      from "1.prems" f have "sec = header @ b \<or> sec \<in> set (finditer_hierarchy rest)" by simp
      then show ?thesis
      proof
        assume "sec = header @ b"
        then show ?thesis using finditer_section [OF lazy_body_closed [OF l]] by simp
      next
        assume "sec \<in> set (finditer_hierarchy rest)"
        then show ?thesis by (rule "1.IH"(1) [OF ne True l [symmetric]])
      qed
    next
      case False
      have f: "finditer_hierarchy s = finditer_hierarchy (tl s)"
        using ne False by (subst finditer_hierarchy.simps) simp
      with "1.prems" "1.IH"(2) [OF ne False] show ?thesis by simp
    qed
  qed
qed

lemma parse_yosys_output_eq:
  "parse_yosys_output n output =
     (if finditer_hierarchy output = [] then Inr (new_results n)
      else parse_section (last (finditer_hierarchy output)) (new_results n))"
  by (simp add: parse_yosys_output_def py_last_def Let_def)

lemma parse_last_section:
  assumes "finditer_hierarchy output \<noteq> []"
  shows "parse_yosys_output n output = parse_yosys_output n (last (finditer_hierarchy output))"
proof -
  have "last (finditer_hierarchy output) \<in> set (finditer_hierarchy output)"
    using assms by simp
  then have "finditer_hierarchy (last (finditer_hierarchy output)) = [last (finditer_hierarchy output)]"
    by (rule finditer_members)
  then show ?thesis using assms by (simp add: parse_yosys_output_eq)
qed

lemma section_end_before_header: "prefix header t \<Longrightarrow> prefix section_end (NL # t)"
proof -
  assume "prefix header t"
  then obtain u where "t = header @ u" by (auto simp: prefix_def)
  then show ?thesis by (simp add: section_end_def header_def)
qed

lemma lazy_body_stop:
  assumes "prefix section_end (NL # t)"
  shows "\<exists>b a'. lazy_body (a @ NL # t) = (b, a' @ NL # t) \<and> length a' \<le> length a"
proof (induction a)
  case Nil
  show ?case using assms by (intro exI [of _ "[]"]) simp
next
  case (Cons c a)
  then obtain b a' where l: "lazy_body (a @ NL # t) = (b, a' @ NL # t)" and le: "length a' \<le> length a"
    by blast
  show ?case
  proof (cases "prefix section_end (c # a @ NL # t)")
    case True
    then show ?thesis by (intro exI [of _ "[]"] exI [of _ "c # a"]) simp
  next
    case False
    then show ?thesis using l le by (intro exI [of _ "c # b"] exI [of _ a']) simp
  qed
qed

lemma header_no_NL: "NL \<notin> set header"
  by (simp add: header_def NL_def)

lemma prefix_header_split:
  assumes "prefix header (a @ NL # t)"
  shows "\<exists>a'. a = header @ a'"
proof -
  from assms have "prefix header a \<or> (\<exists>us. header = a @ us \<and> prefix us (NL # t))"
    by (simp add: prefix_append)
  then show ?thesis
  proof
    assume "prefix header a"
    then show ?thesis by (auto simp: prefix_def)
  next
    assume "\<exists>us. header = a @ us \<and> prefix us (NL # t)"
    then obtain us where h: "header = a @ us" and p: "prefix us (NL # t)" by blast
    show ?thesis
    proof (cases us)
      case Nil
      with h show ?thesis by simp
    next
      case (Cons u us')
      with p have "u = NL" by simp
      with h Cons have "header = a @ NL # us'" by simp
      then have "NL \<in> set header" by (metis in_set_conv_decomp)
      with header_no_NL show ?thesis by simp
    qed
  qed
qed

lemma finditer_later:
  assumes "prefix header t"
  shows "\<exists>X. finditer_hierarchy (a @ NL # t) = X @ finditer_hierarchy t"
proof (induction a rule: length_induct)
  case (1 a)
  let ?s = "a @ NL # t"
  have ne: "?s \<noteq> []" by simp
  show ?case
  proof (cases "prefix header ?s")
    case True
    then obtain a' where a: "a = header @ a'" using prefix_header_split by blast
    have d: "drop (length header) ?s = a' @ NL # t" using a by simp
    from lazy_body_stop [OF section_end_before_header [OF assms], of a']
    obtain b a'' where l: "lazy_body (a' @ NL # t) = (b, a'' @ NL # t)"
      and le: "length a'' \<le> length a'" by blast
    have f: "finditer_hierarchy ?s = (header @ b) # finditer_hierarchy (a'' @ NL # t)"
      using ne True d l by (subst finditer_hierarchy.simps) simp
    have "length a'' < length a" using le a by (simp add: header_length)
    with 1 obtain X where "finditer_hierarchy (a'' @ NL # t) = X @ finditer_hierarchy t"
      by blast
    with f show ?thesis by (intro exI [of _ "(header @ b) # X"]) simp
  next
    case False
    have f: "finditer_hierarchy ?s = finditer_hierarchy (tl ?s)"
      using ne False by (subst finditer_hierarchy.simps) simp
    show ?thesis
    proof (cases a)
      case Nil
      with f show ?thesis by (intro exI [of _ "[]"]) simp
    next
      case (Cons c a1)
      then have "length a1 < length a" by simp
      with 1 obtain X where "finditer_hierarchy (a1 @ NL # t) = X @ finditer_hierarchy t"
        by blast
      with f Cons show ?thesis by (intro exI [of _ X]) simp
    qed
  qed
qed

lemma finditer_header_nonempty:
  assumes "prefix header t"
  shows "finditer_hierarchy t \<noteq> []"
proof -
  have "t \<noteq> []" using assms by (auto simp: header_def)
  then show ?thesis
    using assms by (subst finditer_hierarchy.simps) (simp split: prod.splits)
qed

lemma parse_later:
  assumes "prefix header later"
  shows "parse_yosys_output n (earlier @ [NL] @ later) = parse_yosys_output n later"
proof -
  obtain X where x: "finditer_hierarchy (earlier @ NL # later) = X @ finditer_hierarchy later"
    using finditer_later [OF assms] by blast
  have ne: "finditer_hierarchy later \<noteq> []" by (rule finditer_header_nonempty [OF assms])
  then show ?thesis using x by (simp add: parse_yosys_output_eq)
qed

section \<open>Lengths of the converted counts\<close>

lemma match_count_length: "match_count kw s = Some ds \<Longrightarrow> length ds \<le> length s"
  by (auto simp: match_count_def Let_def length_takeWhile_le split: if_splits)

lemma search_count_length: "search_count kw s = Some ds \<Longrightarrow> length ds \<le> length s"
proof (induction s)
  case Nil
  then show ?case by simp
next
  case (Cons c cs)
  show ?case
  proof (cases "match_count kw (c # cs)")
    case None
    with Cons show ?thesis by simp
  next
    case (Some a)
    with Cons.prems match_count_length [of kw "c # cs" a] show ?thesis by simp
  qed
qed

lemma strip_length: "length (strip s) \<le> length s"
proof -
  have "length (dropWhile is_space (rev (dropWhile is_space s))) \<le> length (dropWhile is_space s)"
    using length_dropWhile_le [of is_space "rev (dropWhile is_space s)"] by simp
  also have "\<dots> \<le> length s" by (rule length_dropWhile_le)
  finally show ?thesis by (simp add: strip_def)
qed

lemma split_nl_length: "l \<in> set (split_nl s) \<Longrightarrow> length l \<le> length s"
proof (induction s arbitrary: l)
  case Nil
  then show ?case by simp
next
  case (Cons c cs)
  show ?case
  proof (cases "c = NL")
    case True
    with Cons show ?thesis by fastforce
  next
    case False
    show ?thesis
    proof (cases "split_nl cs")
      case Nil
      with Cons.prems False show ?thesis by simp
    next
      case (Cons l0 ls)
      with Cons.prems False have "l = c # l0 \<or> l \<in> set ls" by simp
      then show ?thesis
        using Cons.IH [of l0] Cons.IH [of l] Cons by fastforce
    qed
  qed
qed

lemma match_gate_line_length: "match_gate_line line = Some (g1, g2) \<Longrightarrow> length g1 \<le> length line"
  by (auto simp: match_gate_line_def Let_def length_takeWhile_le split: if_splits option.splits)

lemma line_ints_length: "ds \<in> set (line_ints ls) \<Longrightarrow> \<exists>l\<in>set ls. length ds \<le> length l"
proof (induction ls)
  case Nil
  then show ?case by simp
next
  case (Cons l ls)
  show ?case
  proof (cases "match_gate_line (strip l)")
    case None
    with Cons show ?thesis by simp
  next
    case (Some g)
    obtain g1 g2 where g: "g = (g1, g2)" by (cases g)
    with Cons.prems Some have "ds = g1 \<or> ds \<in> set (line_ints ls)" by simp
    then show ?thesis
    proof
      assume "ds = g1"
      then have "length ds \<le> length l"
        using match_gate_line_length [of "strip l" g1 g2] Some g strip_length [of l] by simp
      then show ?thesis by simp
    next
      assume "ds \<in> set (line_ints ls)"
      with Cons.IH show ?thesis by auto
    qed
  qed
qed

lemma int_arguments_length: "ds \<in> set (int_arguments sec) \<Longrightarrow> length ds \<le> length sec"
proof -
  assume "ds \<in> set (int_arguments sec)"
  then have "ds \<in> set (search_ints sec) \<or> ds \<in> set (line_ints (split_nl sec))"
    by (simp add: int_arguments_def)
  then show ?thesis
  proof
    assume "ds \<in> set (search_ints sec)"
    then show ?thesis
      by (auto simp: search_ints_def dest: search_count_length [OF sym] split: option.splits)
  next
    assume "ds \<in> set (line_ints (split_nl sec))"
    then obtain l where "l \<in> set (split_nl sec)" "length ds \<le> length l"
      using line_ints_length by blast
    then show ?thesis using split_nl_length [of l sec] by simp
  qed
qed

lemma finditer_length: "sec \<in> set (finditer_hierarchy s) \<Longrightarrow> length sec \<le> length s"
proof (induction s rule: finditer_hierarchy.induct)
  case (1 s)
  show ?case
  proof (cases "s = []")
    case True
    with "1.prems" show ?thesis by simp
  next
    case ne: False
    show ?thesis
    proof (cases "prefix header s")
      case True
      obtain b rest where l: "lazy_body (drop (length header) s) = (b, rest)"
        by (cases "lazy_body (drop (length header) s)")
      have f: "finditer_hierarchy s = (header @ b) # finditer_hierarchy rest"
        using ne True l by (subst finditer_hierarchy.simps) simp
      have d: "drop (length header) s = b @ rest" using l by (rule lazy_body_append)
      have hs: "s = header @ drop (length header) s"
        using True by (auto simp: prefix_def)
      have len: "length s = length header + length b + length rest"
        using arg_cong [OF hs, of length] d by simp
      from "1.prems" f have "sec = header @ b \<or> sec \<in> set (finditer_hierarchy rest)" by simp
      then show ?thesis
      proof
        assume "sec = header @ b"
        then show ?thesis using len by simp
      next
        assume "sec \<in> set (finditer_hierarchy rest)"
        then have "length sec \<le> length rest" by (rule "1.IH"(1) [OF ne True l [symmetric]])
        then show ?thesis using len by simp
      qed
    next
      case False
      have f: "finditer_hierarchy s = finditer_hierarchy (tl s)"
        using ne False by (subst finditer_hierarchy.simps) simp
      with "1.prems" "1.IH"(2) [OF ne False] have "length sec \<le> length (tl s)" by simp
      then show ?thesis by simp
    qed
  qed
qed

lemma short_text_within_limit:
  assumes "length output \<le> max_str_digits" and "finditer_hierarchy output \<noteq> []"
  shows "list_all within_limit (int_arguments (last (finditer_hierarchy output)))"
proof -
  have "last (finditer_hierarchy output) \<in> set (finditer_hierarchy output)"
    using assms(2) by simp
  then have "length (last (finditer_hierarchy output)) \<le> length output"
    by (rule finditer_length)
  then show ?thesis
    using assms(1) int_arguments_length [of _ "last (finditer_hierarchy output)"]
    by (fastforce simp: list_all_iff within_limit_def)
qed

lemma parse_returns_iff:
  "(\<exists>r. parse_yosys_output n output = Inr r) \<longleftrightarrow>
     finditer_hierarchy output = []
     \<or> list_all within_limit (int_arguments (last (finditer_hierarchy output)))"
  by (simp add: parse_yosys_output_eq parse_section_eq)

lemma parse_raises_iff:
  "parse_yosys_output n output = Inl e \<longleftrightarrow>
     e = ValueError \<and> finditer_hierarchy output \<noteq> []
     \<and> \<not> list_all within_limit (int_arguments (last (finditer_hierarchy output)))"
  by (auto simp: parse_yosys_output_eq parse_section_eq)

lemma parse_result:
  assumes "parse_yosys_output n output = Inr r" and "finditer_hierarchy output \<noteq> []"
  shows "r = fold line_step (split_nl (last (finditer_hierarchy output)))
               (section_counts (last (finditer_hierarchy output)) (new_results n))"
  using assms by (simp add: parse_yosys_output_eq parse_section_eq split: if_splits)

section \<open>A count beyond the conversion limit\<close>

lemma lazy_body_no_NL: "NL \<notin> set s \<Longrightarrow> lazy_body s = (s, [])"
  by (induction s) (auto simp: section_end_def)

lemma replicate_cells_no_NL: "NL \<notin> set (replicate k (CHR ''1'') @ '' cells'')"
  by (auto simp: NL_def)

lemma finditer_long_count: "finditer_hierarchy long_count_report = [long_count_report]"
proof -
  let ?d = "replicate 4301 (CHR ''1'') @ '' cells''"
  have d: "?d = CHR ''1'' # replicate 4300 (CHR ''1'') @ '' cells''"
    by (simp add: replicate_Suc [symmetric] del: replicate_Suc)
  have "\<not> prefix section_end (NL # ?d)"
    unfolding d by (simp add: section_end_def)
  then have "lazy_body (NL # ?d) = (NL # ?d, [])"
    using lazy_body_no_NL [OF replicate_cells_no_NL [of 4301]] by simp
  then have "finditer_hierarchy (header @ NL # ?d) = [header @ NL # ?d]"
    by (rule finditer_section)
  then show ?thesis by (simp add: long_count_report_def)
qed

lemma search_count_skip:
  "\<forall>c\<in>set p. \<not> is_digit c \<Longrightarrow> search_count kw (p @ s) = search_count kw s"
  by (induction p) (simp_all add: match_count_def)

lemma search_count_here:
  "s \<noteq> [] \<Longrightarrow> match_count kw s = Some ds \<Longrightarrow> search_count kw s = Some ds"
  by (cases s) simp_all

lemma takeWhile_ones:
  "takeWhile is_digit (replicate k (CHR ''1'') @ s) = replicate k (CHR ''1'') @ takeWhile is_digit s"
  by (induction k) (simp_all add: is_digit_def)

lemma dropWhile_ones:
  "dropWhile is_digit (replicate k (CHR ''1'') @ s) = dropWhile is_digit s"
  by (induction k) (simp_all add: is_digit_def)

lemma match_count_ones:
  "0 < k \<Longrightarrow> match_count ''cells'' (replicate k (CHR ''1'') @ '' cells'') = Some (replicate k (CHR ''1''))"
proof -
  assume k: "0 < k"
  have t: "takeWhile is_digit (replicate k (CHR ''1'') @ '' cells'') = replicate k (CHR ''1'')"
    by (simp add: takeWhile_ones) (simp add: is_digit_def)
  have dr: "dropWhile is_digit (replicate k (CHR ''1'') @ '' cells'') = '' cells''"
    by (simp add: dropWhile_ones) (simp add: is_digit_def)
  show ?thesis
    using k by (simp add: match_count_def t dr Let_def is_space_def)
qed

lemma search_count_long_count:
  "search_count ''cells'' long_count_report = Some (replicate 4301 (CHR ''1''))"
proof -
  have "\<forall>c\<in>set (header @ [NL]). \<not> is_digit c"
    by (simp add: header_def NL_def is_digit_def)
  then have "search_count ''cells'' long_count_report
      = search_count ''cells'' (replicate 4301 (CHR ''1'') @ '' cells'')"
    using search_count_skip [of "header @ [NL]" "''cells''" "replicate 4301 (CHR ''1'') @ '' cells''"]
    by (simp add: long_count_report_def)
  also have "\<dots> = Some (replicate 4301 (CHR ''1''))"
    by (rule search_count_here) (simp_all add: match_count_ones)
  finally show ?thesis .
qed

lemma long_count_over_limit:
  "\<not> list_all within_limit (int_arguments long_count_report)"
  by (simp add: int_arguments_def search_ints_def search_count_long_count within_limit_def
        max_str_digits_def)

section \<open>The parser: totality, assignment, the last section\<close>

text \<open>
  Claim C5, as amended. On every text \<open>parse_yosys_output\<close> either returns a record or
  raises \<open>ValueError\<close>. It returns on a text without a hierarchy section (the default
  record), on every text of at most 4300 characters, and whenever every count that it
  converts in the last section (the matches of the three search patterns and the number
  on every line that matches the gate pattern) has at most 4300 digits; otherwise
  \<open>int\<close> raises \<open>ValueError\<close>, which \<open>synthesize_design\<close> catches, returning \<open>None\<close>. In
  every record that is returned, \<open>total_cells\<close>, \<open>wires\<close>, \<open>public_wires\<close> and the nine
  gate and arithmetic counts are at least zero, and a count whose pattern has no match
  in the last section is zero.
\<close>

theorem parse_total:
  "(finditer_hierarchy output = [] \<longrightarrow> parse_yosys_output n output = Inr (new_results n))
   \<and> (length output \<le> max_str_digits \<longrightarrow> (\<exists>r. parse_yosys_output n output = Inr r))
   \<and> (finditer_hierarchy output \<noteq> []
        \<and> list_all within_limit (int_arguments (last (finditer_hierarchy output)))
        \<longrightarrow> (\<exists>r. parse_yosys_output n output = Inr r))
   \<and> (finditer_hierarchy output \<noteq> []
        \<and> \<not> list_all within_limit (int_arguments (last (finditer_hierarchy output)))
        \<longrightarrow> parse_yosys_output n output = Inl ValueError
          \<and> synthesize_design n (Completed output) = None)
   \<and> (\<forall>r. parse_yosys_output n output = Inr r \<longrightarrow>
        name r = n
        \<and> 0 \<le> total_cells r \<and> 0 \<le> wires r \<and> 0 \<le> public_wires r
        \<and> 0 \<le> and_gates r \<and> 0 \<le> or_gates r \<and> 0 \<le> xor_gates r \<and> 0 \<le> not_gates r
        \<and> 0 \<le> nand_gates r \<and> 0 \<le> nor_gates r \<and> 0 \<le> xnor_gates r \<and> 0 \<le> mux_gates r
        \<and> 0 \<le> add_cells r
        \<and> (finditer_hierarchy output \<noteq> [] \<longrightarrow>
             (search_count ''cells'' (last (finditer_hierarchy output)) = None
                \<longrightarrow> total_cells r = 0)
           \<and> (search_count ''wires'' (last (finditer_hierarchy output)) = None
                \<longrightarrow> wires r = 0)
           \<and> (search_count ''public wires'' (last (finditer_hierarchy output)) = None
                \<longrightarrow> public_wires r = 0)
           \<and> (\<forall>t\<in>set gate_tokens.
                (\<forall>l\<in>set (split_nl (last (finditer_hierarchy output))).
                   \<forall>ds. match_gate_line (strip l) \<noteq> Some (ds, t))
                \<longrightarrow> gate_count t r = 0)))"
proof -
  have 1: "finditer_hierarchy output = [] \<longrightarrow> parse_yosys_output n output = Inr (new_results n)"
    by (simp add: parse_yosys_output_eq)
  have 3: "finditer_hierarchy output \<noteq> []
        \<and> list_all within_limit (int_arguments (last (finditer_hierarchy output)))
        \<longrightarrow> (\<exists>r. parse_yosys_output n output = Inr r)"
    by (simp add: parse_returns_iff)
  have 2: "length output \<le> max_str_digits \<longrightarrow> (\<exists>r. parse_yosys_output n output = Inr r)"
    using short_text_within_limit [of "output"] parse_returns_iff [of n "output"] by blast
  have 4: "finditer_hierarchy output \<noteq> []
        \<and> \<not> list_all within_limit (int_arguments (last (finditer_hierarchy output)))
        \<longrightarrow> parse_yosys_output n output = Inl ValueError
          \<and> synthesize_design n (Completed output) = None"
  proof
    assume "finditer_hierarchy output \<noteq> []
        \<and> \<not> list_all within_limit (int_arguments (last (finditer_hierarchy output)))"
    then have "parse_yosys_output n output = Inl ValueError"
      by (simp add: parse_raises_iff)
    then show "parse_yosys_output n output = Inl ValueError
          \<and> synthesize_design n (Completed output) = None"
      by (simp add: synthesize_design_def)
  qed
  have 5: "\<forall>r. parse_yosys_output n output = Inr r \<longrightarrow>
        name r = n
        \<and> 0 \<le> total_cells r \<and> 0 \<le> wires r \<and> 0 \<le> public_wires r
        \<and> 0 \<le> and_gates r \<and> 0 \<le> or_gates r \<and> 0 \<le> xor_gates r \<and> 0 \<le> not_gates r
        \<and> 0 \<le> nand_gates r \<and> 0 \<le> nor_gates r \<and> 0 \<le> xnor_gates r \<and> 0 \<le> mux_gates r
        \<and> 0 \<le> add_cells r
        \<and> (finditer_hierarchy output \<noteq> [] \<longrightarrow>
             (search_count ''cells'' (last (finditer_hierarchy output)) = None
                \<longrightarrow> total_cells r = 0)
           \<and> (search_count ''wires'' (last (finditer_hierarchy output)) = None
                \<longrightarrow> wires r = 0)
           \<and> (search_count ''public wires'' (last (finditer_hierarchy output)) = None
                \<longrightarrow> public_wires r = 0)
           \<and> (\<forall>t\<in>set gate_tokens.
                (\<forall>l\<in>set (split_nl (last (finditer_hierarchy output))).
                   \<forall>ds. match_gate_line (strip l) \<noteq> Some (ds, t))
                \<longrightarrow> gate_count t r = 0))"
  proof (intro allI impI)
    fix r assume p: "parse_yosys_output n output = Inr r"
    show "name r = n
        \<and> 0 \<le> total_cells r \<and> 0 \<le> wires r \<and> 0 \<le> public_wires r
        \<and> 0 \<le> and_gates r \<and> 0 \<le> or_gates r \<and> 0 \<le> xor_gates r \<and> 0 \<le> not_gates r
        \<and> 0 \<le> nand_gates r \<and> 0 \<le> nor_gates r \<and> 0 \<le> xnor_gates r \<and> 0 \<le> mux_gates r
        \<and> 0 \<le> add_cells r
        \<and> (finditer_hierarchy output \<noteq> [] \<longrightarrow>
             (search_count ''cells'' (last (finditer_hierarchy output)) = None
                \<longrightarrow> total_cells r = 0)
           \<and> (search_count ''wires'' (last (finditer_hierarchy output)) = None
                \<longrightarrow> wires r = 0)
           \<and> (search_count ''public wires'' (last (finditer_hierarchy output)) = None
                \<longrightarrow> public_wires r = 0)
           \<and> (\<forall>t\<in>set gate_tokens.
                (\<forall>l\<in>set (split_nl (last (finditer_hierarchy output))).
                   \<forall>ds. match_gate_line (strip l) \<noteq> Some (ds, t))
                \<longrightarrow> gate_count t r = 0))"
    proof (cases "finditer_hierarchy output = []")
      case True
      with p have "r = new_results n" by (simp add: parse_yosys_output_eq)
      then show ?thesis using True by (simp add: new_results_def)
    next
      case False
      define sec where "sec = last (finditer_hierarchy output)"
      have r: "r = fold line_step (split_nl sec) (section_counts sec (new_results n))"
        using parse_result [OF p False] by (simp add: sec_def)
      have nn: "counts_nonneg r"
        unfolding r by (rule fold_line_step_nonneg [OF section_counts_nonneg])
      have f: "name r = n"
        "search_count ''cells'' sec = None \<longrightarrow> total_cells r = 0"
        "search_count ''wires'' sec = None \<longrightarrow> wires r = 0"
        "search_count ''public wires'' sec = None \<longrightarrow> public_wires r = 0"
        unfolding r by (simp_all add: fold_line_step_other_fields section_counts_fields)
      have g: "\<forall>t\<in>set gate_tokens.
              (\<forall>l\<in>set (split_nl sec). \<forall>ds. match_gate_line (strip l) \<noteq> Some (ds, t))
              \<longrightarrow> gate_count t r = 0"
        unfolding r by (simp add: gate_count_fold_unmatched section_counts_gate)
      show ?thesis
        using nn f g unfolding counts_nonneg_def sec_def [symmetric] by simp
    qed
  qed
  from 1 2 3 4 5 show ?thesis by (intro conjI)
qed

theorem parse_total_witness:
  "finditer_hierarchy [] = []
   \<and> parse_yosys_output ''Wallace'' [] = Inr (new_results ''Wallace'')
   \<and> length truncated_report \<le> max_str_digits
   \<and> finditer_hierarchy truncated_report \<noteq> []
   \<and> search_count ''cells'' (last (finditer_hierarchy truncated_report)) = None
   \<and> parse_yosys_output ''Wallace'' truncated_report = Inr (new_results ''Wallace'')
   \<and> 0 \<le> total_cells (new_results ''Wallace'')
   \<and> finditer_hierarchy long_count_report \<noteq> []
   \<and> \<not> list_all within_limit (int_arguments (last (finditer_hierarchy long_count_report)))
   \<and> synthesize_design ''Wallace'' (Completed long_count_report) = None"
proof -
  have a: "parse_yosys_output ''Wallace'' [] = Inr (new_results ''Wallace'')"
    using parse_total [of "[]" "''Wallace''"] by simp
  have b: "length truncated_report \<le> max_str_digits"
    by (simp add: truncated_report_def max_str_digits_def)
  have c: "finditer_hierarchy truncated_report \<noteq> []"
    by (rule finditer_header_nonempty) (simp add: truncated_report_def header_def)
  have d: "search_count ''cells'' (last (finditer_hierarchy truncated_report)) = None"
    by code_simp
  have e: "parse_yosys_output ''Wallace'' truncated_report = Inr (new_results ''Wallace'')"
    by code_simp
  have z: "0 \<le> total_cells (new_results ''Wallace'')"
    using parse_total [of truncated_report "''Wallace''"] e by blast
  have f: "finditer_hierarchy long_count_report \<noteq> []"
    by (simp add: finditer_long_count)
  have g: "\<not> list_all within_limit (int_arguments (last (finditer_hierarchy long_count_report)))"
    using long_count_over_limit by (simp add: finditer_long_count)
  have h: "synthesize_design ''Wallace'' (Completed long_count_report) = None"
    using parse_total [of long_count_report "''Wallace''"] f g by blast
  from a b c d e z f g h show ?thesis by simp
qed

text \<open>
  Claim C5 as stated fails on a section whose cell count has 4301 digits: the parser
  raises \<open>ValueError\<close>.
\<close>

theorem parse_raises_counterexample:
  "parse_yosys_output ''Wallace'' long_count_report = Inl ValueError"
  using long_count_over_limit
  by (simp add: parse_yosys_output_eq parse_section_eq finditer_long_count)

text \<open>
  Claim C10. When a line of the last hierarchy section matches a recognised token and no
  later line of the section matches the same token, the field of that token in the record
  that the parser returns is the count on that line, whatever earlier lines with the same
  token said: the parser assigns, it does not add up. The parser returns such a record
  whenever the counts it converts are within the limit of \<open>int\<close>.
\<close>

theorem gate_count_overwrites:
  assumes "t \<in> set gate_tokens"
    and "finditer_hierarchy output \<noteq> []"
    and "split_nl (last (finditer_hierarchy output)) = pre @ l # post"
    and "match_gate_line (strip l) = Some (ds, t)"
    and "\<forall>l'\<in>set post. \<forall>ds'. match_gate_line (strip l') \<noteq> Some (ds', t)"
  shows "(\<forall>r. parse_yosys_output n output = Inr r \<longrightarrow> gate_count t r = digits_value 0 ds)
       \<and> (list_all within_limit (int_arguments (last (finditer_hierarchy output))) \<longrightarrow>
            (\<exists>r. parse_yosys_output n output = Inr r \<and> gate_count t r = digits_value 0 ds))"
proof -
  define sec where "sec = last (finditer_hierarchy output)"
  define r0 where "r0 = fold line_step (split_nl sec) (section_counts sec (new_results n))"
  have g: "gate_count t r0 = digits_value 0 ds"
    unfolding r0_def using assms(3) gate_count_fold_last [OF assms(1,4,5)]
    by (simp add: sec_def)
  have 1: "\<forall>r. parse_yosys_output n output = Inr r \<longrightarrow> gate_count t r = digits_value 0 ds"
    using parse_result [OF _ assms(2)] g by (auto simp: r0_def sec_def)
  have 2: "list_all within_limit (int_arguments (last (finditer_hierarchy output))) \<longrightarrow>
            (\<exists>r. parse_yosys_output n output = Inr r \<and> gate_count t r = digits_value 0 ds)"
    using parse_returns_iff [of n "output"] 1 by blast
  from 1 2 show ?thesis by (intro conjI)
qed

theorem gate_count_overwrites_witness:
  "''$_AND_'' \<in> set gate_tokens
   \<and> finditer_hierarchy repeated_gate \<noteq> []
   \<and> split_nl (last (finditer_hierarchy repeated_gate))
        = [''=== design hierarchy ==='', ''4 $_AND_''] @ ''5 $_AND_'' # [''7 $_OR_'']
   \<and> match_gate_line (strip ''4 $_AND_'') = Some (''4'', ''$_AND_'')
   \<and> match_gate_line (strip ''5 $_AND_'') = Some (''5'', ''$_AND_'')
   \<and> list_all within_limit (int_arguments (last (finditer_hierarchy repeated_gate)))
   \<and> parse_yosys_output ''Dadda'' repeated_gate
        = Inr ((new_results ''Dadda'')\<lparr>and_gates := 5, or_gates := 7\<rparr>)
   \<and> gate_count ''$_AND_'' ((new_results ''Dadda'')\<lparr>and_gates := 5, or_gates := 7\<rparr>) = 5"
proof -
  have a: "''$_AND_'' \<in> set gate_tokens" by (simp add: gate_tokens_def)
  have b: "finditer_hierarchy repeated_gate \<noteq> []" by code_simp
  have c: "split_nl (last (finditer_hierarchy repeated_gate))
        = [''=== design hierarchy ==='', ''4 $_AND_''] @ ''5 $_AND_'' # [''7 $_OR_'']"
    by code_simp
  have d: "match_gate_line (strip ''5 $_AND_'') = Some (''5'', ''$_AND_'')" by code_simp
  have d': "match_gate_line (strip ''4 $_AND_'') = Some (''4'', ''$_AND_'')" by code_simp
  have e: "\<forall>l'\<in>set [''7 $_OR_'']. \<forall>ds'. match_gate_line (strip l') \<noteq> Some (ds', ''$_AND_'')"
  proof -
    have "match_gate_line (strip ''7 $_OR_'') = Some (''7'', ''$_OR_'')" by code_simp
    then show ?thesis by simp
  qed
  have w: "list_all within_limit (int_arguments (last (finditer_hierarchy repeated_gate)))"
    by code_simp
  have f: "parse_yosys_output ''Dadda'' repeated_gate
        = Inr ((new_results ''Dadda'')\<lparr>and_gates := 5, or_gates := 7\<rparr>)"
    by code_simp
  have "digits_value 0 ''5'' = 5" by code_simp
  then have "gate_count ''$_AND_'' ((new_results ''Dadda'')\<lparr>and_gates := 5, or_gates := 7\<rparr>) = 5"
    using gate_count_overwrites [OF a b c d e, of "''Dadda''"] f by simp
  with a b c d d' w f show ?thesis by simp
qed

text \<open>
  Claim C4. When the text has hierarchy sections, the result of the parser is its result
  on the last section alone: the three counts found by the search patterns in that
  section, then the gate lines of that section (or \<open>ValueError\<close> when one of these
  counts is beyond the limit of \<open>int\<close>). In particular, for a text that ends with a
  section starting on a new line, everything before that line (earlier sections and
  their counts included) has no effect on the result.
\<close>

theorem last_section_precedence:
  "(finditer_hierarchy output \<noteq> [] \<longrightarrow>
      parse_yosys_output n output = parse_yosys_output n (last (finditer_hierarchy output))
      \<and> parse_yosys_output n output
          = (if list_all within_limit (int_arguments (last (finditer_hierarchy output)))
             then Inr (fold line_step (split_nl (last (finditer_hierarchy output)))
                        (section_counts (last (finditer_hierarchy output)) (new_results n)))
             else Inl ValueError))
   \<and> (prefix header later \<longrightarrow>
      parse_yosys_output n (earlier @ [NL] @ later) = parse_yosys_output n later)"
proof -
  have "finditer_hierarchy output \<noteq> [] \<longrightarrow>
      parse_yosys_output n output
          = (if list_all within_limit (int_arguments (last (finditer_hierarchy output)))
             then Inr (fold line_step (split_nl (last (finditer_hierarchy output)))
                        (section_counts (last (finditer_hierarchy output)) (new_results n)))
             else Inl ValueError)"
    by (simp add: parse_yosys_output_eq parse_section_eq)
  then show ?thesis
    using parse_last_section [of "output" n] parse_later [of later n earlier] by blast
qed

theorem last_section_precedence_witness:
  "finditer_hierarchy two_sections = [earlier_section, later_section]
   \<and> prefix header later_section
   \<and> two_sections = earlier_section @ [NL] @ later_section
   \<and> parse_yosys_output ''Dadda'' earlier_section
        = Inr ((new_results ''Dadda'')\<lparr>total_cells := 12, and_gates := 4\<rparr>)
   \<and> parse_yosys_output ''Dadda'' later_section
        = Inr ((new_results ''Dadda'')\<lparr>total_cells := 99, xor_gates := 6\<rparr>)
   \<and> parse_yosys_output ''Dadda'' two_sections
        = Inr ((new_results ''Dadda'')\<lparr>total_cells := 99, xor_gates := 6\<rparr>)"
proof -
  have a: "finditer_hierarchy two_sections = [earlier_section, later_section]" by code_simp
  have b: "prefix header later_section" by code_simp
  have c: "two_sections = earlier_section @ [NL] @ later_section" by code_simp
  have d: "parse_yosys_output ''Dadda'' earlier_section
        = Inr ((new_results ''Dadda'')\<lparr>total_cells := 12, and_gates := 4\<rparr>)" by code_simp
  have e: "parse_yosys_output ''Dadda'' later_section
        = Inr ((new_results ''Dadda'')\<lparr>total_cells := 99, xor_gates := 6\<rparr>)" by code_simp
  have "parse_yosys_output ''Dadda'' two_sections = parse_yosys_output ''Dadda'' later_section"
    using last_section_precedence [of two_sections "''Dadda''" later_section earlier_section] a b c
    by simp
  with a b c d e show ?thesis by simp
qed

end
